theory Spec2Isabelle
  imports Complex_Main "HOL-Library.Sublist"
begin

section \<open>Browser calls and their outcomes\<close>

text \<open>
  The three scripts drive a browser through the Playwright synchronous API. The browser
  is the environment: every call of the API either returns a value or raises. An
  \<^verbatim>\<open>assert\<close> of a script raises \<open>AssertionError\<close>; everything the driver raises
  (timeout, unreachable server, closed page) is \<open>DriverError\<close>. Both derive from
  Python's \<^verbatim>\<open>Exception\<close>.
\<close>

datatype exn = AssertionError | DriverError

datatype 'a outcome = Returns 'a | Raises exn

section \<open>The aggregate script: \<^verbatim>\<open>test-frontend.py\<close>\<close>

text \<open>
  The labels of the entries of \<^verbatim>\<open>results\<close>, in the order of the source:
  line 35, 47, 52, 61/64, 72, 99/102, 110/113 and 117.
\<close>

datatype label =
    HomeVisit | NavBar | AuthButton | ApiProxy | ResponsiveDesign
  | ResourceLoad | JsNoErrors | TestExecution

record console_msg =
  msg_type :: string
  msg_text :: string

record response =
  resp_url :: string
  resp_status :: int

text \<open>
  What the browser does during one run of \<^verbatim>\<open>test_frontend\<close>. Calls are keyed by the
  source line that makes them: \<open>fe_act\<close> for the calls whose value is not used
  (\<^verbatim>\<open>goto\<close> 31, \<^verbatim>\<open>screenshot\<close> 38 and 70, \<^verbatim>\<open>set_viewport_size\<close> 68 and 75,
  \<^verbatim>\<open>wait_for_load_state\<close> 69, \<^verbatim>\<open>reload\<close> 93), \<open>fe_count\<close> for the two
  \<^verbatim>\<open>locator(...).count()\<close> (45, 50). \<open>fe_console\<close> and \<open>fe_responses\<close> are the
  console messages and network responses the page delivers while the call of that line
  is running.
\<close>

record fe_browser =
  fe_act :: "nat \<Rightarrow> unit outcome"
  fe_title :: "string outcome"
  fe_url :: string
  fe_count :: "nat \<Rightarrow> nat outcome"
  fe_health :: "response outcome"
  fe_console :: "nat \<Rightarrow> console_msg list"
  fe_responses :: "nat \<Rightarrow> response list"

text \<open>
  The variables of \<^verbatim>\<open>test_frontend\<close>. \<open>listening\<close> says whether \<^verbatim>\<open>log_response\<close>
  has been registered (line 91); \<^verbatim>\<open>on_console\<close> is registered before the
  \<^verbatim>\<open>try\<close> (line 22). The source appends the text \<^verbatim>\<open>"url (status)"\<close> to
  \<^verbatim>\<open>failed_requests\<close>; the model keeps the response it is built from.
\<close>

record fe_state =
  results :: "(label \<times> bool) list"
  console_errors :: "string list"
  failed_requests :: "response list"
  listening :: bool
  browser_closed :: bool

definition fe_initial :: fe_state where
  "fe_initial = \<lparr>results = [], console_errors = [], failed_requests = [],
                  listening = False, browser_closed = False\<rparr>"

type_synonym 'a fe_prog = "fe_state \<Rightarrow> 'a outcome \<times> fe_state"

text \<open>Sequencing: a raise skips the rest and keeps the state reached so far.\<close>

definition fe_then :: "'a fe_prog \<Rightarrow> ('a \<Rightarrow> 'b fe_prog) \<Rightarrow> 'b fe_prog" where
  "fe_then m f s =
     (case m s of
        (Returns v, s') \<Rightarrow> f v s'
      | (Raises e, s') \<Rightarrow> (Raises e, s'))"

definition on_console :: "console_msg \<Rightarrow> fe_state \<Rightarrow> fe_state" where
  "on_console msg s =
     (if msg_type msg = ''error''
      then s\<lparr>console_errors := console_errors s @ [msg_text msg]\<rparr>
      else s)"

definition log_response :: "response \<Rightarrow> fe_state \<Rightarrow> fe_state" where
  "log_response r s =
     (if resp_status r \<ge> 400
      then s\<lparr>failed_requests := failed_requests s @ [r]\<rparr>
      else s)"

definition deliver :: "fe_browser \<Rightarrow> nat \<Rightarrow> fe_state \<Rightarrow> fe_state" where
  "deliver b line s =
     (let s1 = fold on_console (fe_console b line) s
      in if listening s1 then fold log_response (fe_responses b line) s1 else s1)"

text \<open>A call of the page: the events of the call reach the listeners, then it returns or raises.\<close>

definition fe_call :: "fe_browser \<Rightarrow> nat \<Rightarrow> 'a outcome \<Rightarrow> 'a fe_prog" where
  "fe_call b line r s = (r, deliver b line s)"

definition append_result :: "label \<Rightarrow> bool \<Rightarrow> unit fe_prog" where
  "append_result l ok s = (Returns (), s\<lparr>results := results s @ [(l, ok)]\<rparr>)"

definition test_1 :: "fe_browser \<Rightarrow> unit fe_prog" where
  "test_1 b =
     fe_then (fe_call b 31 (fe_act b 31)) (\<lambda>_.
     fe_then (fe_call b 32 (fe_title b)) (\<lambda>title.
     fe_then (append_result HomeVisit (fe_url b = ''http://localhost:3000/'')) (\<lambda>_.
     fe_call b 38 (fe_act b 38))))"

definition test_2 :: "fe_browser \<Rightarrow> unit fe_prog" where
  "test_2 b =
     fe_then (fe_call b 45 (fe_count b 45)) (\<lambda>nav.
     fe_then (append_result NavBar (nav > 0)) (\<lambda>_.
     fe_then (fe_call b 50 (fe_count b 50)) (\<lambda>login_btn.
     append_result AuthButton (login_btn > 0))))"

text \<open>The inner \<^verbatim>\<open>try\<close> of lines 57 to 64: a raise of the request is a failed check.\<close>

definition test_3 :: "fe_browser \<Rightarrow> unit fe_prog" where
  "test_3 b s =
     (case fe_call b 58 (fe_health b) s of
        (Returns resp, s') \<Rightarrow> append_result ApiProxy (resp_status resp = 200) s'
      | (Raises e, s') \<Rightarrow> append_result ApiProxy False s')"

definition test_4 :: "fe_browser \<Rightarrow> unit fe_prog" where
  "test_4 b =
     fe_then (fe_call b 68 (fe_act b 68)) (\<lambda>_.
     fe_then (fe_call b 69 (fe_act b 69)) (\<lambda>_.
     fe_then (fe_call b 70 (fe_act b 70)) (\<lambda>_.
     fe_then (append_result ResponsiveDesign True) (\<lambda>_.
     fe_call b 75 (fe_act b 75)))))"

definition register_log_response :: "unit fe_prog" where
  "register_log_response s = (Returns (), s\<lparr>listening := True\<rparr>)"

definition test_5 :: "fe_browser \<Rightarrow> unit fe_prog" where
  "test_5 b =
     fe_then register_log_response (\<lambda>_.
     fe_then (fe_call b 93 (fe_act b 93)) (\<lambda>_.
     (\<lambda>s. if failed_requests s \<noteq> []
          then append_result ResourceLoad False s
          else append_result ResourceLoad True s)))"

definition test_6 :: "unit fe_prog" where
  "test_6 s =
     (if console_errors s \<noteq> []
      then append_result JsNoErrors False s
      else append_result JsNoErrors True s)"

definition try_block :: "fe_browser \<Rightarrow> unit fe_prog" where
  "try_block b =
     fe_then (test_1 b) (\<lambda>_.
     fe_then (test_2 b) (\<lambda>_.
     fe_then (test_3 b) (\<lambda>_.
     fe_then (test_4 b) (\<lambda>_.
     fe_then (test_5 b) (\<lambda>_.
     test_6)))))"

text \<open>
  Lines 24 to 120: the \<^verbatim>\<open>try\<close>, its \<^verbatim>\<open>except Exception\<close> and its \<^verbatim>\<open>finally\<close>.
  The result is the state when the \<^verbatim>\<open>with\<close> block is left.
\<close>

definition run_frontend :: "fe_browser \<Rightarrow> fe_state" where
  "run_frontend b =
     (case try_block b fe_initial of
        (Returns _, s) \<Rightarrow> s\<lparr>browser_closed := True\<rparr>
      | (Raises e, s) \<Rightarrow> (snd (append_result TestExecution False s))\<lparr>browser_closed := True\<rparr>)"

text \<open>Lines 127 to 137: the value \<^verbatim>\<open>test_frontend\<close> returns, which is the exit status.\<close>

definition exit_status :: "(label \<times> bool) list \<Rightarrow> int" where
  "exit_status rs =
     (let passed = length (filter (\<lambda>(_, result). result) rs);
          total = length rs
      in if passed = total then 0 else 1)"

definition test_frontend :: "fe_browser \<Rightarrow> int" where
  "test_frontend b = exit_status (results (run_frontend b))"

section \<open>Scripts that leave a trace: printing, screenshots, closing the browser\<close>

text \<open>
  \<^verbatim>\<open>test_responsive.py\<close> and \<^verbatim>\<open>test_ui_design.py\<close> keep no variables between their
  steps beyond the timestamp: all they do is visible from outside, as lines on the
  console, commands to the browser and screenshot files. A run is its outcome together
  with the trace of these events, in order. \<open>Print\<close> carries the printed line,
  \<open>Goto\<close> and \<open>Resize\<close> the page and viewport the browser is sent to,
  \<open>Screenshot\<close> the path of a file that has been written, \<open>BrowserClose\<close> a
  completed \<^verbatim>\<open>browser.close()\<close>.
\<close>

datatype 'l event = Print 'l | Goto string | Resize int int | Screenshot string | BrowserClose

type_synonym ('l, 'a) prog = "'a outcome \<times> 'l event list"

text \<open>Sequencing: a raise ends the program with the trace written so far.\<close>

definition and_then :: "('l, 'a) prog \<Rightarrow> ('a \<Rightarrow> ('l, 'b) prog) \<Rightarrow> ('l, 'b) prog" where
  "and_then m f =
     (case m of
        (Returns v, t) \<Rightarrow> (case f v of (r, t') \<Rightarrow> (r, t @ t'))
      | (Raises e, t) \<Rightarrow> (Raises e, t))"

fun sequence :: "('l, unit) prog list \<Rightarrow> ('l, unit) prog" where
  "sequence [] = (Returns (), [])"
| "sequence (m # ms) = and_then m (\<lambda>_. sequence ms)"

definition skip :: "('l, unit) prog" where
  "skip = (Returns (), [])"

definition emit :: "'l event \<Rightarrow> ('l, unit) prog" where
  "emit e = (Returns (), [e])"

definition say :: "'l \<Rightarrow> ('l, unit) prog" where
  "say l = emit (Print l)"

text \<open>A call of the browser whose effect on the trace, if any, is written separately.\<close>

definition call :: "'a outcome \<Rightarrow> ('l, 'a) prog" where
  "call r = (r, [])"

text \<open>\<^verbatim>\<open>assert cond\<close>.\<close>

definition assert :: "bool \<Rightarrow> ('l, unit) prog" where
  "assert cond = (if cond then (Returns (), []) else (Raises AssertionError, []))"

subsection \<open>The timestamp\<close>

text \<open>
  Both scripts take \<^verbatim>\<open>time.strftime('%Y%m%d_%H%M%S')\<close>: the local time of the clock,
  broken down to the second, printed by the library as the decimal year, then month,
  day, hour, minute and second with two digits each. \<open>valid_tm\<close> is the range of the
  fields of a \<^verbatim>\<open>struct_time\<close> for a four-digit year.
\<close>

record tm =
  tm_year :: nat
  tm_mon :: nat
  tm_mday :: nat
  tm_hour :: nat
  tm_min :: nat
  tm_sec :: nat

definition digit :: "nat \<Rightarrow> char" where
  "digit n = ''0123456789'' ! (n mod 10)"

fun decimal :: "nat \<Rightarrow> string" where
  "decimal n = (if n < 10 then [digit n] else decimal (n div 10) @ [digit n])"

definition two_digits :: "nat \<Rightarrow> string" where
  "two_digits n = [digit (n div 10), digit n]"

definition strftime :: "tm \<Rightarrow> string" where
  "strftime t =
     decimal (tm_year t) @ two_digits (tm_mon t) @ two_digits (tm_mday t) @ ''_'' @
     two_digits (tm_hour t) @ two_digits (tm_min t) @ two_digits (tm_sec t)"

definition valid_tm :: "tm \<Rightarrow> bool" where
  "valid_tm t \<longleftrightarrow>
     1000 \<le> tm_year t \<and> tm_year t \<le> 9999 \<and> 1 \<le> tm_mon t \<and> tm_mon t \<le> 12 \<and>
     1 \<le> tm_mday t \<and> tm_mday t \<le> 31 \<and> tm_hour t \<le> 23 \<and> tm_min t \<le> 59 \<and>
     tm_sec t \<le> 61"

definition is_digit :: "char \<Rightarrow> bool" where
  "is_digit c \<longleftrightarrow> c \<in> set ''0123456789''"

text \<open>The pattern \<^verbatim>\<open>YYYYMMDD_HHMMSS\<close>.\<close>

definition is_timestamp :: "string \<Rightarrow> bool" where
  "is_timestamp s \<longleftrightarrow>
     length s = 15 \<and> list_all is_digit (take 8 s) \<and> s ! 8 = CHR ''_'' \<and>
     list_all is_digit (drop 9 s)"

section \<open>The responsive script: \<^verbatim>\<open>test_responsive.py\<close>\<close>

text \<open>Lines 9 to 25. A dictionary keeps its insertion order, which the loop follows.\<close>

definition DEVICE_SIZES :: "(string \<times> int \<times> int) list" where
  "DEVICE_SIZES =
     [(''iPhone SE'', 375, 667), (''iPhone 12'', 390, 844), (''iPad'', 768, 1024),
      (''iPad Pro'', 1024, 1366), (''Desktop'', 1440, 900), (''Large Desktop'', 1920, 1080)]"

definition PAGES_TO_TEST :: "(string \<times> string) list" where
  "PAGES_TO_TEST =
     [(''/'', ''Home''), (''/profile'', ''Profile''), (''/market'', ''Market''),
      (''/subscription'', ''Subscription''), (''/hot-products'', ''HotProducts''),
      (''/favorites'', ''Favorites'')]"

text \<open>
  The lines the script prints, one constructor for each \<^verbatim>\<open>print\<close> (or run of
  \<^verbatim>\<open>print\<close>s without a value between them), with the values the line shows:
  \<open>Started\<close> 33-34, \<open>LoginStarted\<close> 37, \<open>LoginOk\<close> 49, \<open>LoginWarn\<close> 51,
  \<open>DeviceHeader\<close> 57-59, \<open>PageHeader\<close> 67, \<open>ScrollFail\<close> 79, \<open>ScrollOk\<close> 81,
  \<open>NavMobile\<close> 89, \<open>NavDesktop\<close> 91, \<open>MainVisible\<close> 97, \<open>CardsFound\<close> 105,
  \<open>TouchOk\<close> 120, \<open>TouchWarn\<close> 122, \<open>Saved\<close> 127, \<open>Finished\<close> 131-133,
  \<open>DevicesTested\<close> 134, \<open>PagesTested\<close> 135, \<open>ShotsTaken\<close> 136,
  \<open>Coverage\<close> 137-141.
\<close>

datatype rs_line =
    Started | LoginStarted | LoginOk | LoginWarn
  | DeviceHeader string int int
  | PageHeader string
  | ScrollFail int int | ScrollOk int
  | NavMobile | NavDesktop
  | MainVisible int
  | CardsFound nat int
  | TouchOk | TouchWarn nat
  | Saved string
  | Finished | DevicesTested nat | PagesTested nat | ShotsTaken nat | Coverage

text \<open>
  The bounding box of a button, in CSS pixels. The driver gives floating-point numbers;
  the script only compares them with 44, which is exact, so they are taken as reals.
\<close>

record box =
  box_x :: real
  box_y :: real
  box_width :: real
  box_height :: real

text \<open>
  What the browser answers during one pass of the inner loop (lines 66 to 127), each
  call named with its source line. \<open>pv_buttons\<close> is the list \<^verbatim>\<open>locator('button').all()\<close>
  gives, each button with what its \<^verbatim>\<open>bounding_box()\<close> would give.
\<close>

record page_visit =
  pv_goto :: "unit outcome"
  pv_idle :: "unit outcome"
  pv_settle :: "unit outcome"
  pv_scroll_width :: "int outcome"
  pv_sidebar_visible :: "bool outcome"
  pv_main_visible :: "bool outcome"
  pv_main_width :: "int outcome"
  pv_card_count :: "nat outcome"
  pv_card_width :: "int outcome"
  pv_buttons :: "box option outcome list outcome"
  pv_screenshot :: "unit outcome"

text \<open>
  What the browser and the clock do during one run: the calls of the login (lines 38,
  39, 42, 43, 44), \<^verbatim>\<open>wait_for_url\<close> with its timeout of 5000 ms (line 48), the clock
  (line 53), the two calls after a resize (lines 62, 63) for each device, and the
  visit of each page on each device.
\<close>

record rs_browser =
  rs_login_act :: "nat \<Rightarrow> unit outcome"
  rs_wait_for_url :: "unit outcome"
  rs_clock :: tm
  rs_resize :: "string \<Rightarrow> nat \<Rightarrow> unit outcome"
  rs_visit :: "string \<Rightarrow> string \<Rightarrow> page_visit"

text \<open>Lines 74 to 81.\<close>

definition check_scroll :: "int \<Rightarrow> page_visit \<Rightarrow> (rs_line, unit) prog" where
  "check_scroll viewport_width v =
     and_then (call (pv_scroll_width v)) (\<lambda>scroll_width.
       if scroll_width > viewport_width + 10
       then say (ScrollFail scroll_width viewport_width)
       else say (ScrollOk scroll_width))"

text \<open>Lines 83 to 91.\<close>

definition check_sidebar :: "int \<Rightarrow> page_visit \<Rightarrow> (rs_line, unit) prog" where
  "check_sidebar width v =
     and_then (call (pv_sidebar_visible v)) (\<lambda>visible.
       if visible then (if width < 768 then say NavMobile else say NavDesktop) else skip)"

text \<open>Lines 93 to 97.\<close>

definition check_main :: "page_visit \<Rightarrow> (rs_line, unit) prog" where
  "check_main v =
     and_then (call (pv_main_visible v)) (\<lambda>visible.
       if visible
       then and_then (call (pv_main_width v)) (\<lambda>main_width. say (MainVisible main_width))
       else skip)"

text \<open>Lines 99 to 105.\<close>

definition check_cards :: "page_visit \<Rightarrow> (rs_line, unit) prog" where
  "check_cards v =
     and_then (call (pv_card_count v)) (\<lambda>card_count.
       if card_count > 0
       then and_then (call (pv_card_width v)) (\<lambda>card_width. say (CardsFound card_count card_width))
       else skip)"

text \<open>
  The loop of lines 111 to 117 over the buttons it is given, with \<^verbatim>\<open>small_buttons\<close>
  as accumulator. \<^verbatim>\<open>x or 0\<close> is 0 when \<open>x\<close> is zero and \<open>x\<close> otherwise.
\<close>

fun count_small :: "box option outcome list \<Rightarrow> nat \<Rightarrow> nat outcome" where
  "count_small [] small_buttons = Returns small_buttons"
| "count_small (Raises e # btns) small_buttons = Raises e"
| "count_small (Returns None # btns) small_buttons = count_small btns small_buttons"
| "count_small (Returns (Some bx) # btns) small_buttons =
     (let width = (if box_width bx = 0 then 0 else box_width bx);
          height = (if box_height bx = 0 then 0 else box_height bx)
      in if width < 44 \<or> height < 44
         then count_small btns (small_buttons + 1)
         else count_small btns small_buttons)"

text \<open>Lines 107 to 122.\<close>

definition check_touch :: "int \<Rightarrow> page_visit \<Rightarrow> (rs_line, unit) prog" where
  "check_touch width v =
     (if width \<le> 480
      then and_then (call (pv_buttons v)) (\<lambda>buttons.
           and_then (call (count_small (take 5 buttons) 0)) (\<lambda>small_buttons.
             if small_buttons = 0 then say TouchOk else say (TouchWarn small_buttons)))
      else skip)"

text \<open>Line 125: \<^verbatim>\<open>replace(' ', '_')\<close> and the name of the file.\<close>

definition replace_spaces :: "string \<Rightarrow> string" where
  "replace_spaces s = map (\<lambda>c. if c = CHR '' '' then CHR ''_'' else c) s"

definition screenshot_name :: "string \<Rightarrow> string \<Rightarrow> string \<Rightarrow> string" where
  "screenshot_name device_name page_name timestamp =
     ''responsive_'' @ replace_spaces device_name @ ''_'' @ page_name @ ''_'' @ timestamp @ ''.png''"

text \<open>Lines 124 to 127. The file exists once \<^verbatim>\<open>page.screenshot\<close> has returned.\<close>

definition take_screenshot :: "string \<Rightarrow> string \<Rightarrow> string \<Rightarrow> page_visit \<Rightarrow> (rs_line, unit) prog" where
  "take_screenshot device_name page_name timestamp v =
     (let name = screenshot_name device_name page_name timestamp
      in sequence [call (pv_screenshot v), emit (Screenshot name), say (Saved name)])"

text \<open>The body of the inner loop, lines 66 to 127: the check of one page on one device.\<close>

definition check_page ::
  "string \<Rightarrow> int \<Rightarrow> string \<times> string \<Rightarrow> string \<Rightarrow> page_visit \<Rightarrow> (rs_line, unit) prog" where
  "check_page device_name width page_info timestamp v =
     sequence
       [say (PageHeader (snd page_info)),
        emit (Goto (''http://localhost:3001'' @ fst page_info)),
        call (pv_goto v), call (pv_idle v), call (pv_settle v),
        check_scroll width v,
        check_sidebar width v,
        check_main v,
        check_cards v,
        check_touch width v,
        take_screenshot device_name (snd page_info) timestamp v]"

text \<open>The body of the outer loop, lines 56 to 127.\<close>

definition test_device ::
  "rs_browser \<Rightarrow> string \<Rightarrow> string \<times> int \<times> int \<Rightarrow> (rs_line, unit) prog" where
  "test_device b timestamp device =
     (case device of (device_name, width, height) \<Rightarrow>
        sequence
          [say (DeviceHeader device_name width height),
           emit (Resize width height),
           call (rs_resize b device_name 62), call (rs_resize b device_name 63),
           sequence (map (\<lambda>page_info.
              check_page device_name width page_info timestamp
                (rs_visit b device_name (snd page_info))) PAGES_TO_TEST)])"

text \<open>
  Lines 33 to 51: the login. The \<^verbatim>\<open>except:\<close> of line 50 catches whatever
  \<^verbatim>\<open>wait_for_url\<close> raises.
\<close>

definition rs_login :: "rs_browser \<Rightarrow> (rs_line, unit) prog" where
  "rs_login b =
     sequence
       [say Started, say LoginStarted,
        emit (Goto ''http://localhost:3001/login''),
        call (rs_login_act b 38), call (rs_login_act b 39), call (rs_login_act b 42),
        call (rs_login_act b 43), call (rs_login_act b 44),
        (case rs_wait_for_url b of Returns _ \<Rightarrow> say LoginOk | Raises e \<Rightarrow> say LoginWarn)]"

text \<open>Lines 53 to 141: the matrix, the close and the summary.\<close>

definition rs_after_login :: "rs_browser \<Rightarrow> (rs_line, unit) prog" where
  "rs_after_login b =
     (let timestamp = strftime (rs_clock b)
      in sequence
           [sequence (map (test_device b timestamp) DEVICE_SIZES),
            emit BrowserClose,
            say Finished,
            say (DevicesTested (length DEVICE_SIZES)),
            say (PagesTested (length PAGES_TO_TEST)),
            say (ShotsTaken (length DEVICE_SIZES * length PAGES_TO_TEST)),
            say Coverage])"

definition test_responsive_design :: "rs_browser \<Rightarrow> (rs_line, unit) prog" where
  "test_responsive_design b = and_then (rs_login b) (\<lambda>_. rs_after_login b)"

section \<open>The design script: \<^verbatim>\<open>test_ui_design.py\<close>\<close>

text \<open>
  What the browser and the clock do during one run, each call keyed by its source line:
  \<open>ui_act\<close> for the calls whose value is not used (\<^verbatim>\<open>goto\<close> 19, 93, 115, 137, 149,
  159, 179, 185; \<^verbatim>\<open>wait_for_load_state\<close> 20, 66, 94, 116, 138, 150, 160, 180, 186;
  \<^verbatim>\<open>click\<close> 40, 57; \<^verbatim>\<open>wait_for_timeout\<close> 41; \<^verbatim>\<open>fill\<close> 49, 53; \<^verbatim>\<open>screenshot\<close> 181,
  187), \<open>ui_text\<close> for \<^verbatim>\<open>evaluate\<close> (23, 43), \<open>ui_visible\<close> for \<^verbatim>\<open>is_visible\<close> (30, 35,
  73, 98, 108, 120, 125, 130), \<open>ui_count\<close> for \<^verbatim>\<open>count\<close> (80, 87, 103, 142, 164, 172),
  \<open>ui_attribute\<close> for \<^verbatim>\<open>get_attribute\<close> (131), \<open>ui_wait_for_url\<close> for line 61 with its
  timeout of 5000 ms, \<open>ui_clock\<close> for line 176.

  A printed line is recorded as the source line of its \<^verbatim>\<open>print\<close>.
\<close>

record ui_browser =
  ui_act :: "nat \<Rightarrow> unit outcome"
  ui_text :: "nat \<Rightarrow> string outcome"
  ui_visible :: "nat \<Rightarrow> bool outcome"
  ui_count :: "nat \<Rightarrow> nat outcome"
  ui_attribute :: "string option outcome"
  ui_wait_for_url :: "unit outcome"
  ui_clock :: tm

text \<open>\<^verbatim>\<open>str.lower\<close> on the letters of ASCII, which is what class names are made of.\<close>

definition lower :: "string \<Rightarrow> string" where
  "lower s =
     map (\<lambda>c. case map_of (zip ''ABCDEFGHIJKLMNOPQRSTUVWXYZ'' ''abcdefghijklmnopqrstuvwxyz'') c of
                Some l \<Rightarrow> l
              | None \<Rightarrow> c) s"

text \<open>Lines 14 to 45: the login page.\<close>

definition ui_login_page :: "ui_browser \<Rightarrow> (nat, unit) prog" where
  "ui_login_page b =
     sequence
       [say 14, say 15, say 18,
        emit (Goto ''http://localhost:3001/login''), call (ui_act b 19), call (ui_act b 20),
        and_then (call (ui_text b 23)) (\<lambda>bg_color.
          sequence
            [say 24,
             assert (sublist ''rgb(15, 23, 42)'' bg_color \<or> sublist ''slate'' bg_color)]),
        say 26,
        and_then (call (ui_visible b 30)) assert, say 31,
        and_then (call (ui_visible b 35)) assert, say 36,
        call (ui_act b 40), call (ui_act b 41),
        and_then (call (ui_text b 43)) (\<lambda>focus_ring. say 44), say 45]"

text \<open>
  Lines 47 to 64: the login. The \<^verbatim>\<open>except:\<close> of line 63 catches whatever
  \<^verbatim>\<open>wait_for_url\<close> raises.
\<close>

definition ui_login :: "ui_browser \<Rightarrow> (nat, unit) prog" where
  "ui_login b =
     sequence
       [say 48, call (ui_act b 49), call (ui_act b 53), call (ui_act b 57),
        (case ui_wait_for_url b of Returns _ \<Rightarrow> say 62 | Raises e \<Rightarrow> say 64)]"

text \<open>Lines 66 to 89: the home page.\<close>

definition ui_home :: "ui_browser \<Rightarrow> (nat, unit) prog" where
  "ui_home b =
     sequence
       [call (ui_act b 66), say 69,
        and_then (call (ui_visible b 73)) (\<lambda>visible. if visible then say 74 else say 76),
        and_then (call (ui_count b 80)) (\<lambda>card_count.
          sequence [say 81, assert (card_count > 0)]),
        say 83,
        and_then (call (ui_count b 87)) (\<lambda>orange_count. say 88), say 89]"

text \<open>Lines 91 to 111: the profile page.\<close>

definition ui_profile :: "ui_browser \<Rightarrow> (nat, unit) prog" where
  "ui_profile b =
     sequence
       [say 92,
        emit (Goto ''http://localhost:3001/profile''), call (ui_act b 93), call (ui_act b 94),
        and_then (call (ui_visible b 98)) assert, say 99,
        and_then (call (ui_count b 103)) (\<lambda>n. assert (n \<ge> 2)), say 104,
        and_then (call (ui_visible b 108)) (\<lambda>visible. if visible then say 109 else say 111)]"

text \<open>Lines 113 to 133: the market page.\<close>

definition ui_market :: "ui_browser \<Rightarrow> (nat, unit) prog" where
  "ui_market b =
     sequence
       [say 114,
        emit (Goto ''http://localhost:3001/market''), call (ui_act b 115), call (ui_act b 116),
        and_then (call (ui_visible b 120)) (\<lambda>visible. if visible then say 121 else skip),
        and_then (call (ui_visible b 125)) assert, say 126,
        and_then (call (ui_visible b 130)) (\<lambda>visible.
          if visible
          then and_then (call (ui_attribute b)) (\<lambda>attribute.
                 let btn_classes = (case attribute of None \<Rightarrow> '''' | Some c \<Rightarrow> c)
                 in if sublist ''gradient'' (lower btn_classes) \<or>
                       sublist ''orange'' (lower btn_classes)
                    then say 133 else skip)
          else skip)]"

text \<open>Lines 135 to 145: the subscription page.\<close>

definition ui_subscription :: "ui_browser \<Rightarrow> (nat, unit) prog" where
  "ui_subscription b =
     sequence
       [say 136,
        emit (Goto ''http://localhost:3001/subscription''),
        call (ui_act b 137), call (ui_act b 138),
        and_then (call (ui_count b 142)) (\<lambda>plan_count.
          sequence [say 143, assert (plan_count > 0)]),
        say 145]"

text \<open>Lines 147 to 155: the page of hot products.\<close>

definition ui_hot_products :: "ui_browser \<Rightarrow> (nat, unit) prog" where
  "ui_hot_products b =
     sequence
       [say 148,
        emit (Goto ''http://localhost:3001/hot-products''),
        call (ui_act b 149), call (ui_act b 150),
        and_then (call (ui_visible b 154)) (\<lambda>visible. if visible then say 155 else skip)]"

text \<open>Lines 157 to 172: the page of favorites and the count of clickable elements.\<close>

definition ui_favorites :: "ui_browser \<Rightarrow> (nat, unit) prog" where
  "ui_favorites b =
     sequence
       [say 158,
        emit (Goto ''http://localhost:3001/favorites''),
        call (ui_act b 159), call (ui_act b 160),
        and_then (call (ui_count b 164)) (\<lambda>n. assert (n \<ge> 2)), say 165,
        say 168,
        and_then (call (ui_count b 172)) (\<lambda>n. say 172)]"

text \<open>Lines 174 to 188: the two screenshots.\<close>

definition ui_screenshots :: "ui_browser \<Rightarrow> (nat, unit) prog" where
  "ui_screenshots b =
     (let timestamp = strftime (ui_clock b)
      in sequence
           [say 175,
            emit (Goto ''http://localhost:3001/''), call (ui_act b 179), call (ui_act b 180),
            call (ui_act b 181),
            emit (Screenshot (''/tmp/flashsell_home_'' @ timestamp @ ''.png'')), say 182,
            emit (Goto ''http://localhost:3001/profile''), call (ui_act b 185), call (ui_act b 186),
            call (ui_act b 187),
            emit (Screenshot (''/tmp/flashsell_profile_'' @ timestamp @ ''.png'')), say 188])"

text \<open>Lines 190 to 201: the close and the summary.\<close>

definition ui_finish :: "(nat, unit) prog" where
  "ui_finish =
     sequence
       [emit BrowserClose,
        say 192, say 193, say 194, say 195, say 196, say 197, say 198, say 199, say 200, say 201]"

text \<open>Lines 66 to 201: everything after the login.\<close>

definition ui_checks :: "ui_browser \<Rightarrow> (nat, unit) prog" where
  "ui_checks b =
     sequence
       [ui_home b, ui_profile b, ui_market b, ui_subscription b, ui_hot_products b,
        ui_favorites b, ui_screenshots b, ui_finish]"

definition test_ui_design :: "ui_browser \<Rightarrow> (nat, unit) prog" where
  "test_ui_design b = sequence [ui_login_page b, ui_login b, ui_checks b]"

section \<open>The \<^verbatim>\<open>with\<close> block around each run\<close>

text \<open>
  Each script runs inside \<^verbatim>\<open>with sync_playwright() as p:\<close> and begins by launching
  the browser and opening its page (\<^verbatim>\<open>test-frontend.py\<close> lines 13 to 15,
  \<^verbatim>\<open>test_responsive.py\<close> lines 29 to 31, \<^verbatim>\<open>test_ui_design.py\<close> lines 10 to 12).
  Neither call is inside a \<^verbatim>\<open>try\<close>: a raise of either leaves the function at once.
  The definitions above are the rest of the block, with the browser and the page open.

  A browser that has been launched is open until the script closes it with
  \<^verbatim>\<open>browser.close()\<close> or until the \<^verbatim>\<open>with\<close> block is left: on every way out, by
  return or by exception, the context manager of the library stops the driver, and
  with the driver every browser it launched.
\<close>

record driver =
  drv_launch :: "unit outcome"
  drv_new_page :: "unit outcome"

datatype session = NoBrowser | BrowserOpen | ClosedByScript | StoppedWithDriver

definition leave_with :: "session \<Rightarrow> session" where
  "leave_with s = (if s = BrowserOpen then StoppedWithDriver else s)"

text \<open>
  \<^verbatim>\<open>test_frontend()\<close> as a whole: what leaves the function (the value of line 137, or
  the exception nothing caught), the entries of \<^verbatim>\<open>results\<close> at that moment, and the
  browser session once the \<^verbatim>\<open>with\<close> block has been left.
\<close>

record fe_end =
  fe_returned :: "int outcome"
  fe_results :: "(label \<times> bool) list"
  fe_session :: session

definition frontend_script :: "driver \<Rightarrow> fe_browser \<Rightarrow> fe_end" where
  "frontend_script d b =
     (case drv_launch d of
        Raises e \<Rightarrow>
          \<lparr>fe_returned = Raises e, fe_results = [], fe_session = leave_with NoBrowser\<rparr>
      | Returns _ \<Rightarrow>
          (case drv_new_page d of
             Raises e \<Rightarrow>
               \<lparr>fe_returned = Raises e, fe_results = [], fe_session = leave_with BrowserOpen\<rparr>
           | Returns _ \<Rightarrow>
               \<lparr>fe_returned = Returns (test_frontend b),
                fe_results = results (run_frontend b),
                fe_session =
                  leave_with (if browser_closed (run_frontend b) then ClosedByScript
                              else BrowserOpen)\<rparr>))"

text \<open>
  Line 140, \<^verbatim>\<open>sys.exit(test_frontend())\<close>: the exit status of the process is the value
  returned, and 1 when an exception ends the interpreter.
\<close>

definition process_exit :: "int outcome \<Rightarrow> int" where
  "process_exit r = (case r of Returns n \<Rightarrow> n | Raises e \<Rightarrow> 1)"





section \<open>Notions used in the statements\<close>

subsection \<open>Auxiliary notions for the statements about the aggregate script\<close>

fun returns :: "'a outcome \<Rightarrow> bool" where
  "returns (Returns _) = True"
| "returns (Raises _) = False"

text \<open>
  The page calls of the \<^verbatim>\<open>try\<close> block by source line, and the ones whose raise
  reaches the \<^verbatim>\<open>except\<close> of line 115 (all but the request of line 58, which has
  its own handler).
\<close>

definition page_call_lines :: "nat list" where
  "page_call_lines = [31, 32, 38, 45, 50, 58, 68, 69, 70, 75, 93]"

definition guarded_calls_return :: "fe_browser \<Rightarrow> bool" where
  "guarded_calls_return b \<longleftrightarrow>
     list_all (\<lambda>l. returns (fe_act b l)) [31, 38, 68, 69, 70, 75, 93] \<and>
     returns (fe_title b) \<and> list_all (\<lambda>l. returns (fe_count b l)) [45, 50]"

definition reaches_test_3 :: "fe_browser \<Rightarrow> bool" where
  "reaches_test_3 b \<longleftrightarrow>
     returns (fe_act b 31) \<and> returns (fe_title b) \<and> returns (fe_act b 38) \<and>
     returns (fe_count b 45) \<and> returns (fe_count b 50)"

definition error_texts :: "fe_browser \<Rightarrow> nat \<Rightarrow> string list" where
  "error_texts b l = map msg_text (filter (\<lambda>m. msg_type m = ''error'') (fe_console b l))"

definition failed_of :: "fe_browser \<Rightarrow> nat \<Rightarrow> response list" where
  "failed_of b l = filter (\<lambda>r. resp_status r \<ge> 400) (fe_responses b l)"

definition count_of :: "nat outcome \<Rightarrow> nat" where
  "count_of r = (case r of Returns n \<Rightarrow> n | Raises e \<Rightarrow> 0)"

definition api_ok :: "fe_browser \<Rightarrow> bool" where
  "api_ok b = (case fe_health b of Returns r \<Rightarrow> resp_status r = 200 | Raises e \<Rightarrow> False)"

text \<open>The entries of \<^verbatim>\<open>results\<close> of a run whose guarded calls all return.\<close>

definition expected_results :: "fe_browser \<Rightarrow> (label \<times> bool) list" where
  "expected_results b =
     [(HomeVisit, fe_url b = ''http://localhost:3000/''),
      (NavBar, count_of (fe_count b 45) > 0),
      (AuthButton, count_of (fe_count b 50) > 0),
      (ApiProxy, api_ok b),
      (ResponsiveDesign, True),
      (ResourceLoad, failed_of b 93 = []),
      (JsNoErrors, concat (map (error_texts b) page_call_lines) = [])]"

definition other_checks :: "(label \<times> bool) list \<Rightarrow> (label \<times> bool) list" where
  "other_checks rs = filter (\<lambda>(l, ok). l \<noteq> ApiProxy) rs"

definition api_entries :: "(label \<times> bool) list \<Rightarrow> (label \<times> bool) list" where
  "api_entries rs = filter (\<lambda>(l, ok). l = ApiProxy) rs"

text \<open>
  Two states agree when they differ at most in the \<open>ApiProxy\<close> entries of
  \<^verbatim>\<open>results\<close>; two programs are related when they take agreeing states to the same
  outcome and to agreeing states.
\<close>

definition agree :: "fe_state \<Rightarrow> fe_state \<Rightarrow> bool" where
  "agree s s' \<longleftrightarrow>
     console_errors s = console_errors s' \<and> failed_requests s = failed_requests s' \<and>
     listening s = listening s' \<and> browser_closed s = browser_closed s' \<and>
     other_checks (results s) = other_checks (results s')"

definition related :: "'a fe_prog \<Rightarrow> 'a fe_prog \<Rightarrow> bool" where
  "related m m' \<longleftrightarrow>
     (\<forall>s s'. agree s s' \<longrightarrow> fst (m s) = fst (m' s') \<and> agree (snd (m s)) (snd (m' s')))"

definition keeps_api :: "'a fe_prog \<Rightarrow> bool" where
  "keeps_api m \<longleftrightarrow> (\<forall>s. api_entries (results (snd (m s))) = api_entries (results s))"

subsection \<open>Concrete browsers for the aggregate script\<close>

text \<open>
  A frontend and backend that work; a server that cannot be reached; a backend whose
  health endpoint answers 503; a page that logs one console error while the home page
  loads and none afterwards.
\<close>

definition fe_healthy :: fe_browser where
  "fe_healthy =
     \<lparr>fe_act = (\<lambda>_. Returns ()), fe_title = Returns ''FlashSell'',
      fe_url = ''http://localhost:3000/'', fe_count = (\<lambda>_. Returns 1),
      fe_health = Returns \<lparr>resp_url = ''http://localhost:3000/api/health'', resp_status = 200\<rparr>,
      fe_console = (\<lambda>_. []), fe_responses = (\<lambda>_. [])\<rparr>"

definition fe_unreachable :: fe_browser where
  "fe_unreachable = fe_healthy\<lparr>fe_act := (\<lambda>_. Raises DriverError)\<rparr>"

definition fe_backend_down :: fe_browser where
  "fe_backend_down =
     fe_healthy\<lparr>fe_health :=
       Returns \<lparr>resp_url = ''http://localhost:3000/api/health'', resp_status = 503\<rparr>\<rparr>"

definition fe_early_error :: fe_browser where
  "fe_early_error =
     fe_healthy\<lparr>fe_console :=
       (\<lambda>l. if l = 31 then [\<lparr>msg_type = ''error'', msg_text = ''Uncaught TypeError''\<rparr>] else [])\<rparr>"

subsection \<open>Auxiliary notions for the statements about the responsive script\<close>

fun screenshots :: "'l event list \<Rightarrow> string list" where
  "screenshots [] = []"
| "screenshots (Screenshot n # es) = n # screenshots es"
| "screenshots (e # es) = screenshots es"

fun is_scroll_fail :: "rs_line event \<Rightarrow> bool" where
  "is_scroll_fail (Print (ScrollFail sw vw)) = True"
| "is_scroll_fail e = False"

fun is_touch_line :: "rs_line event \<Rightarrow> bool" where
  "is_touch_line (Print TouchOk) = True"
| "is_touch_line (Print (TouchWarn n)) = True"
| "is_touch_line e = False"

fun is_header :: "rs_line event \<Rightarrow> bool" where
  "is_header (Print (DeviceHeader d w h)) = True"
| "is_header (Print (PageHeader p)) = True"
| "is_header e = False"

text \<open>
  The touch-target rule in the words of the specification: a sampled control is
  undersized when it has a bounding box whose width or height is below 44.
\<close>

fun undersized :: "box option outcome \<Rightarrow> bool" where
  "undersized (Returns (Some bx)) \<longleftrightarrow> box_width bx < 44 \<or> box_height bx < 44"
| "undersized r \<longleftrightarrow> False"

definition undersized_count :: "box option outcome list \<Rightarrow> nat" where
  "undersized_count btns = length (filter undersized (take 5 btns))"

fun is_screenshot :: "'l event \<Rightarrow> bool" where
  "is_screenshot (Screenshot n) = True"
| "is_screenshot e = False"

text \<open>The screenshot names and the header lines of the whole matrix, device by device.\<close>

definition matrix_screenshots :: "string \<Rightarrow> string list" where
  "matrix_screenshots timestamp =
     concat (map (\<lambda>(d, w, h). map (\<lambda>(u, p). screenshot_name d p timestamp) PAGES_TO_TEST)
       DEVICE_SIZES)"

definition matrix_headers :: "rs_line event list" where
  "matrix_headers =
     concat (map (\<lambda>(d, w, h).
         Print (DeviceHeader d w h) # map (\<lambda>(u, p). Print (PageHeader p)) PAGES_TO_TEST)
       DEVICE_SIZES)"

text \<open>The failure lines of the scroll check that the pairs of the matrix call for.\<close>

definition overflow_lines :: "rs_browser \<Rightarrow> rs_line event list" where
  "overflow_lines b =
     concat (map (\<lambda>(d, w, h).
       concat (map (\<lambda>(u, p).
         case pv_scroll_width (rs_visit b d p) of
           Returns sw \<Rightarrow> if sw > w + 10 then [Print (ScrollFail sw w)] else []
         | Raises e \<Rightarrow> []) PAGES_TO_TEST)) DEVICE_SIZES)"

subsection \<open>Concrete browsers for the responsive script\<close>

text \<open>
  A page that fits its viewport and shows no landmark, card or button; the same page
  500 pixels wide; the same page with six buttons, of which the first and the fourth
  are too small, the second has no bounding box and the sixth, too small as well, lies
  beyond the sample.
\<close>

definition quiet_visit :: page_visit where
  "quiet_visit =
     \<lparr>pv_goto = Returns (), pv_idle = Returns (), pv_settle = Returns (),
      pv_scroll_width = Returns 360, pv_sidebar_visible = Returns False,
      pv_main_visible = Returns False, pv_main_width = Returns 0,
      pv_card_count = Returns 0, pv_card_width = Returns 0,
      pv_buttons = Returns [], pv_screenshot = Returns ()\<rparr>"

definition overflowing_visit :: page_visit where
  "overflowing_visit = quiet_visit\<lparr>pv_scroll_width := Returns 500\<rparr>"

definition small_buttons_visit :: page_visit where
  "small_buttons_visit =
     quiet_visit\<lparr>pv_buttons := Returns
       [Returns (Some \<lparr>box_x = 0, box_y = 0, box_width = 100, box_height = 30\<rparr>),
        Returns None,
        Returns (Some \<lparr>box_x = 0, box_y = 40, box_width = 50, box_height = 50\<rparr>),
        Returns (Some \<lparr>box_x = 0, box_y = 100, box_width = 20, box_height = 20\<rparr>),
        Returns (Some \<lparr>box_x = 0, box_y = 130, box_width = 44, box_height = 44\<rparr>),
        Returns (Some \<lparr>box_x = 0, box_y = 180, box_width = 10, box_height = 10\<rparr>)]\<rparr>"

text \<open>
  A run on 3 November 2026 at 14:01:00 in which every call returns; the same run with
  the login timing out; the same run with the home page overflowing on the first device.
\<close>

definition rs_fine :: rs_browser where
  "rs_fine =
     \<lparr>rs_login_act = (\<lambda>_. Returns ()), rs_wait_for_url = Returns (),
      rs_clock = \<lparr>tm_year = 2026, tm_mon = 11, tm_mday = 3, tm_hour = 14, tm_min = 1, tm_sec = 0\<rparr>,
      rs_resize = (\<lambda>_ _. Returns ()), rs_visit = (\<lambda>_ _. quiet_visit)\<rparr>"

definition rs_login_timeout :: rs_browser where
  "rs_login_timeout = rs_fine\<lparr>rs_wait_for_url := Raises DriverError\<rparr>"

definition rs_overflowing :: rs_browser where
  "rs_overflowing =
     rs_fine\<lparr>rs_visit :=
       (\<lambda>d p. if d = ''iPhone SE'' \<and> p = ''Home'' then overflowing_visit else quiet_visit)\<rparr>"

definition rs_later :: rs_browser where
  "rs_later =
     rs_fine\<lparr>rs_clock :=
       \<lparr>tm_year = 2026, tm_mon = 11, tm_mday = 3, tm_hour = 14, tm_min = 2, tm_sec = 0\<rparr>\<rparr>"

subsection \<open>Concrete browsers for the design script and for failing runs\<close>

text \<open>
  A frontend that shows all the design script looks for; the same with the login timing
  out; the same with a white background, which fails the first \<^verbatim>\<open>assert\<close> (line 25).
  For the responsive script, a server that stops answering before the first page of
  the matrix.
\<close>

definition ui_fine :: ui_browser where
  "ui_fine =
     \<lparr>ui_act = (\<lambda>_. Returns ()), ui_text = (\<lambda>_. Returns ''rgb(15, 23, 42)''),
      ui_visible = (\<lambda>_. Returns True), ui_count = (\<lambda>_. Returns 3),
      ui_attribute = Returns (Some ''btn bg-Orange-500''),
      ui_wait_for_url = Returns (),
      ui_clock = \<lparr>tm_year = 2026, tm_mon = 11, tm_mday = 3, tm_hour = 14, tm_min = 1, tm_sec = 0\<rparr>\<rparr>"

definition ui_login_timeout :: ui_browser where
  "ui_login_timeout = ui_fine\<lparr>ui_wait_for_url := Raises DriverError\<rparr>"



subsection \<open>Notions and concrete drivers for the statements about whole scripts\<close>

text \<open>Every page call of the \<^verbatim>\<open>try\<close> block of \<^verbatim>\<open>test-frontend.py\<close> returns.\<close>

definition all_calls_return :: "fe_browser \<Rightarrow> bool" where
  "all_calls_return b \<longleftrightarrow> guarded_calls_return b \<and> returns (fe_health b)"


text \<open>
  A driver that launches the browser and opens the page; one whose browser does not
  start; one whose browser starts and whose page does not open. A frontend that works
  with a health request that cannot connect.
\<close>

definition driver_fine :: driver where
  "driver_fine = \<lparr>drv_launch = Returns (), drv_new_page = Returns ()\<rparr>"

definition driver_no_browser :: driver where
  "driver_no_browser = \<lparr>drv_launch = Raises DriverError, drv_new_page = Returns ()\<rparr>"

definition driver_no_page :: driver where
  "driver_no_page = \<lparr>drv_launch = Returns (), drv_new_page = Raises DriverError\<rparr>"

definition fe_health_unreachable :: fe_browser where
  "fe_health_unreachable = fe_healthy\<lparr>fe_health := Raises DriverError\<rparr>"

section \<open>Proofs about the aggregate script\<close>

lemma length_filter_full: "length (filter P xs) = length xs \<longleftrightarrow> (\<forall>x \<in> set xs. P x)"
proof (induction xs)
  case Nil
  then show ?case by simp
next
  case (Cons a xs)
  then show ?case using length_filter_le[of P xs] by (auto simp del: length_filter_le)
qed

lemma exit_status_all: "exit_status rs = (if (\<forall>(l, ok) \<in> set rs. ok) then 0 else 1)"
  by (auto simp: exit_status_def Let_def length_filter_full)

lemma console_errors_fold_log [simp]:
  "console_errors (fold log_response rs s) = console_errors s"
  by (induction rs arbitrary: s) (auto simp: log_response_def)

lemma listening_fold_log [simp]: "listening (fold log_response rs s) = listening s"
  by (induction rs arbitrary: s) (auto simp: log_response_def)

lemma results_fold_log [simp]: "results (fold log_response rs s) = results s"
  by (induction rs arbitrary: s) (auto simp: log_response_def)

lemma console_errors_fold_console:
  "console_errors (fold on_console ms s) =
     console_errors s @ map msg_text (filter (\<lambda>m. msg_type m = ''error'') ms)"
  by (induction ms arbitrary: s) (auto simp: on_console_def)

lemma results_fold_console [simp]: "results (fold on_console ms s) = results s"
  by (induction ms arbitrary: s) (auto simp: on_console_def)

lemma listening_fold_console [simp]: "listening (fold on_console ms s) = listening s"
  by (induction ms arbitrary: s) (auto simp: on_console_def)

lemma failed_fold_console [simp]: "failed_requests (fold on_console ms s) = failed_requests s"
  by (induction ms arbitrary: s) (auto simp: on_console_def)

lemma results_deliver [simp]: "results (deliver b l s) = results s"
  by (simp add: deliver_def Let_def)

lemma console_errors_deliver:
  "console_errors (deliver b l s) =
     console_errors s @ map msg_text (filter (\<lambda>m. msg_type m = ''error'') (fe_console b l))"
  by (simp add: deliver_def Let_def console_errors_fold_console)

lemma run_frontend_closed: "browser_closed (run_frontend b)"
  by (simp add: run_frontend_def split: prod.splits outcome.splits)

lemma returns_iff: "returns r \<longleftrightarrow> (\<exists>v. r = Returns v)"
  by (cases r) auto

lemma fe_then_returns:
  "fst (fe_then m f s) = Returns y \<longleftrightarrow>
     (\<exists>v. fst (m s) = Returns v \<and> fst (f v (snd (m s))) = Returns y)"
  by (cases "m s"; cases "fst (m s)") (auto simp: fe_then_def)

lemma fst_fe_call [simp]: "fst (fe_call b l r s) = r"
  by (simp add: fe_call_def)

lemma fst_append_result [simp]: "fst (append_result l ok s) = Returns ()"
  by (simp add: append_result_def)

lemma test_1_returns:
  "fst (test_1 b s) = Returns () \<longleftrightarrow>
     fe_act b 31 = Returns () \<and> (\<exists>t. fe_title b = Returns t) \<and> fe_act b 38 = Returns ()"
  by (simp add: test_1_def fe_then_returns)

lemma test_2_returns:
  "fst (test_2 b s) = Returns () \<longleftrightarrow>
     (\<exists>n. fe_count b 45 = Returns n) \<and> (\<exists>n. fe_count b 50 = Returns n)"
  by (simp add: test_2_def fe_then_returns)

lemma test_3_returns: "fst (test_3 b s) = Returns ()"
  by (simp add: test_3_def fe_call_def split: outcome.splits)

lemma test_4_returns:
  "fst (test_4 b s) = Returns () \<longleftrightarrow>
     fe_act b 68 = Returns () \<and> fe_act b 69 = Returns () \<and> fe_act b 70 = Returns () \<and>
     fe_act b 75 = Returns ()"
  by (simp add: test_4_def fe_then_returns)

lemma test_5_returns: "fst (test_5 b s) = Returns () \<longleftrightarrow> fe_act b 93 = Returns ()"
  by (simp add: test_5_def fe_then_returns register_log_response_def)

lemma test_6_returns: "fst (test_6 s) = Returns ()"
  by (simp add: test_6_def)

lemma try_block_returns:
  "fst (try_block b s) = Returns () \<longleftrightarrow> guarded_calls_return b"
  by (simp add: try_block_def fe_then_returns test_1_returns test_2_returns
      test_3_returns test_4_returns test_5_returns test_6_returns guarded_calls_return_def
      returns_iff conj_ac)

lemma failed_fold_log:
  "failed_requests (fold log_response rs s) =
     failed_requests s @ filter (\<lambda>r. resp_status r \<ge> 400) rs"
  by (induction rs arbitrary: s) (auto simp: log_response_def)

lemma closed_fold_log [simp]: "browser_closed (fold log_response rs s) = browser_closed s"
  by (induction rs arbitrary: s) (auto simp: log_response_def)

lemma closed_fold_console [simp]: "browser_closed (fold on_console ms s) = browser_closed s"
  by (induction ms arbitrary: s) (auto simp: on_console_def)

lemma console_errors_deliver_texts [simp]:
  "console_errors (deliver b l s) = console_errors s @ error_texts b l"
  by (simp add: console_errors_deliver error_texts_def)

lemma listening_deliver [simp]: "listening (deliver b l s) = listening s"
  by (simp add: deliver_def Let_def)

lemma closed_deliver [simp]: "browser_closed (deliver b l s) = browser_closed s"
  by (simp add: deliver_def Let_def)

lemma failed_deliver [simp]:
  "failed_requests (deliver b l s) =
     failed_requests s @ (if listening s then failed_of b l else [])"
  by (simp add: deliver_def Let_def failed_fold_log failed_of_def)

text \<open>The state after each test, when its calls return.\<close>

lemma test_1_state:
  assumes "fe_act b 31 = Returns ()" "fe_title b = Returns t" "fe_act b 38 = Returns ()"
  shows "test_1 b s = (Returns (),
     (deliver b 38 ((deliver b 32 (deliver b 31 s))
        \<lparr>results := results s @ [(HomeVisit, fe_url b = ''http://localhost:3000/'')]\<rparr>)))"
  using assms by (simp add: test_1_def fe_then_def fe_call_def append_result_def)

lemma test_2_state:
  assumes "fe_count b 45 = Returns n" "fe_count b 50 = Returns k"
  shows "test_2 b s = (Returns (),
     (deliver b 50 ((deliver b 45 s)\<lparr>results := results s @ [(NavBar, n > 0)]\<rparr>))
        \<lparr>results := results s @ [(NavBar, n > 0), (AuthButton, k > 0)]\<rparr>)"
  using assms by (simp add: test_2_def fe_then_def fe_call_def append_result_def)

lemma test_3_state:
  "test_3 b s = (Returns (), (deliver b 58 s)\<lparr>results := results s @ [(ApiProxy, api_ok b)]\<rparr>)"
  by (simp add: test_3_def fe_call_def append_result_def api_ok_def split: outcome.splits)

lemma test_4_state:
  assumes "fe_act b 68 = Returns ()" "fe_act b 69 = Returns ()" "fe_act b 70 = Returns ()"
    "fe_act b 75 = Returns ()"
  shows "test_4 b s = (Returns (),
     deliver b 75 ((deliver b 70 (deliver b 69 (deliver b 68 s)))
        \<lparr>results := results s @ [(ResponsiveDesign, True)]\<rparr>))"
  using assms by (simp add: test_4_def fe_then_def fe_call_def append_result_def)

lemma test_5_state:
  assumes "fe_act b 93 = Returns ()"
  shows "test_5 b s = (Returns (),
     (deliver b 93 (s\<lparr>listening := True\<rparr>))
        \<lparr>results := results s @ [(ResourceLoad, failed_requests s @ failed_of b 93 = [])]\<rparr>)"
  using assms
  by (simp add: test_5_def fe_then_def fe_call_def append_result_def register_log_response_def)

lemma test_6_state:
  "test_6 s = (Returns (), s\<lparr>results := results s @ [(JsNoErrors, console_errors s = [])]\<rparr>)"
  by (simp add: test_6_def append_result_def)

lemma guarded_calls_returnD:
  assumes "guarded_calls_return b"
  shows "fe_act b 31 = Returns ()" "fe_act b 38 = Returns ()" "fe_act b 68 = Returns ()"
    "fe_act b 69 = Returns ()" "fe_act b 70 = Returns ()" "fe_act b 75 = Returns ()"
    "fe_act b 93 = Returns ()" "\<exists>t. fe_title b = Returns t"
    "fe_count b 45 = Returns (count_of (fe_count b 45))"
    "fe_count b 50 = Returns (count_of (fe_count b 50))"
  using assms by (auto simp: guarded_calls_return_def returns_iff count_of_def)

lemma results_complete_run:
  assumes "guarded_calls_return b"
  shows "results (run_frontend b) = expected_results b"
proof -
  note c = guarded_calls_returnD [OF assms]
  from c(8) obtain t where t: "fe_title b = Returns t" ..
  define s1 where "s1 = snd (test_1 b fe_initial)"
  define s2 where "s2 = snd (test_2 b s1)"
  define s3 where "s3 = snd (test_3 b s2)"
  define s4 where "s4 = snd (test_4 b s3)"
  define s5 where "s5 = snd (test_5 b s4)"
  define s6 where "s6 = snd (test_6 s5)"
  have t1: "test_1 b fe_initial = (Returns (), s1)"
    by (simp add: s1_def test_1_state [OF c(1) t c(2)])
  have t2: "test_2 b s1 = (Returns (), s2)"
    by (simp add: s2_def test_2_state [OF c(9) c(10)])
  have t3: "test_3 b s2 = (Returns (), s3)"
    by (simp add: s3_def test_3_state)
  have t4: "test_4 b s3 = (Returns (), s4)"
    by (simp add: s4_def test_4_state [OF c(3) c(4) c(5) c(6)])
  have t5: "test_5 b s4 = (Returns (), s5)"
    by (simp add: s5_def test_5_state [OF c(7)])
  have t6: "test_6 s5 = (Returns (), s6)"
    by (simp add: s6_def test_6_state)
  have run: "try_block b fe_initial = (Returns (), s6)"
    by (simp add: try_block_def fe_then_def t1 t2 t3 t4 t5 t6)
  have r1: "results s1 = [(HomeVisit, fe_url b = ''http://localhost:3000/'')]"
    and e1: "console_errors s1 = error_texts b 31 @ error_texts b 32 @ error_texts b 38"
    and l1: "\<not> listening s1" and f1: "failed_requests s1 = []"
    by (simp_all add: s1_def test_1_state [OF c(1) t c(2)] fe_initial_def)
  have r2: "results s2 = results s1 @ [(NavBar, count_of (fe_count b 45) > 0),
                (AuthButton, count_of (fe_count b 50) > 0)]"
    and e2: "console_errors s2 = console_errors s1 @ error_texts b 45 @ error_texts b 50"
    and l2: "\<not> listening s2" and f2: "failed_requests s2 = []"
    using l1 f1 by (simp_all add: s2_def test_2_state [OF c(9) c(10)])
  have r3: "results s3 = results s2 @ [(ApiProxy, api_ok b)]"
    and e3: "console_errors s3 = console_errors s2 @ error_texts b 58"
    and l3: "\<not> listening s3" and f3: "failed_requests s3 = []"
    using l2 f2 by (simp_all add: s3_def test_3_state)
  have r4: "results s4 = results s3 @ [(ResponsiveDesign, True)]"
    and e4: "console_errors s4 = console_errors s3 @ error_texts b 68 @ error_texts b 69 @
                error_texts b 70 @ error_texts b 75"
    and l4: "\<not> listening s4" and f4: "failed_requests s4 = []"
    using l3 f3 by (simp_all add: s4_def test_4_state [OF c(3) c(4) c(5) c(6)])
  have r5: "results s5 = results s4 @ [(ResourceLoad, failed_of b 93 = [])]"
    and e5: "console_errors s5 = console_errors s4 @ error_texts b 93"
    using l4 f4 by (simp_all add: s5_def test_5_state [OF c(7)])
  have r6: "results s6 = results s5 @ [(JsNoErrors, console_errors s5 = [])]"
    by (simp add: s6_def test_6_state)
  have "results (run_frontend b) = results s6"
    by (simp add: run_frontend_def run)
  also have "\<dots> = expected_results b"
    unfolding r6 r5 r4 r3 r2 r1 e5 e4 e3 e2 e1
    by (simp add: expected_results_def page_call_lines_def)
  finally show ?thesis .
qed

lemma related_call: "related (fe_call b l r) (fe_call b l r)"
  by (simp add: related_def agree_def fe_call_def)

lemma related_append: "l \<noteq> ApiProxy \<Longrightarrow> related (append_result l ok) (append_result l ok)"
  by (simp add: related_def agree_def append_result_def other_checks_def)

lemma fe_then_cases:
  obtains (ret) v s' where "m s = (Returns v, s')" "fe_then m f s = f v s'"
  | (exc) e s' where "m s = (Raises e, s')" "fe_then m f s = (Raises e, s')"
proof (cases "m s")
  case (Pair r s')
  then show ?thesis by (cases r) (auto simp: fe_then_def intro: ret exc)
qed

lemma related_then:
  assumes "related m m'" and "\<And>v. related (f v) (f' v)"
  shows "related (fe_then m f) (fe_then m' f')"
  unfolding related_def
proof (intro allI impI)
  fix s s' assume a: "agree s s'"
  from assms(1) a have 1: "fst (m s) = fst (m' s')" and 2: "agree (snd (m s)) (snd (m' s'))"
    by (auto simp: related_def)
  show "fst (fe_then m f s) = fst (fe_then m' f' s') \<and>
        agree (snd (fe_then m f s)) (snd (fe_then m' f' s'))"
  proof (cases rule: fe_then_cases [of m s f])
    case (ret v t)
    with 1 obtain t' where t': "m' s' = (Returns v, t')" by (cases "m' s'") auto
    then have "fe_then m' f' s' = f' v t'" by (simp add: fe_then_def)
    moreover from 2 ret t' have "agree t t'" by simp
    ultimately show ?thesis using assms(2) [of v] ret by (simp add: related_def)
  next
    case (exc e t)
    with 1 obtain t' where t': "m' s' = (Raises e, t')" by (cases "m' s'") auto
    then have "fe_then m' f' s' = (Raises e, t')" by (simp add: fe_then_def)
    moreover from 2 exc t' have "agree t t'" by simp
    ultimately show ?thesis using exc by simp
  qed
qed

lemma deliver_health [simp]: "deliver (b\<lparr>fe_health := h\<rparr>) l = deliver b l"
  by (simp add: deliver_def fun_eq_iff Let_def)

lemma fe_call_health [simp]: "fe_call (b\<lparr>fe_health := h\<rparr>) l r = fe_call b l r"
  by (simp add: fe_call_def fun_eq_iff)

lemma related_test_1: "related (test_1 (b\<lparr>fe_health := h\<rparr>)) (test_1 b)"
  by (simp add: test_1_def) (intro related_then related_call related_append, simp_all)

lemma related_test_2: "related (test_2 (b\<lparr>fe_health := h\<rparr>)) (test_2 b)"
  by (simp add: test_2_def) (intro related_then related_call related_append, simp_all)

lemma related_test_3: "related (test_3 (b\<lparr>fe_health := h\<rparr>)) (test_3 b)"
  by (simp add: related_def test_3_state agree_def other_checks_def)

lemma related_test_4: "related (test_4 (b\<lparr>fe_health := h\<rparr>)) (test_4 b)"
  by (simp add: test_4_def) (intro related_then related_call related_append, simp_all)

lemma related_test_5: "related (test_5 (b\<lparr>fe_health := h\<rparr>)) (test_5 b)"
proof -
  have "related (\<lambda>s. if failed_requests s \<noteq> [] then append_result ResourceLoad False s
              else append_result ResourceLoad True s)
          (\<lambda>s. if failed_requests s \<noteq> [] then append_result ResourceLoad False s
              else append_result ResourceLoad True s)"
    by (simp add: related_def agree_def append_result_def other_checks_def)
  moreover have "related register_log_response register_log_response"
    by (simp add: related_def agree_def register_log_response_def)
  ultimately show ?thesis
    by (simp add: test_5_def) (intro related_then related_call, simp_all)
qed

lemma related_test_6: "related test_6 test_6"
  by (simp add: related_def agree_def test_6_def append_result_def other_checks_def)

lemma related_try_block: "related (try_block (b\<lparr>fe_health := h\<rparr>)) (try_block b)"
  unfolding try_block_def
  by (intro related_then related_test_1 related_test_2 related_test_3 related_test_4
      related_test_5 related_test_6)

lemma other_checks_frame:
  "other_checks (results (run_frontend (b\<lparr>fe_health := h\<rparr>))) =
   other_checks (results (run_frontend b))"
proof -
  have a: "agree fe_initial fe_initial" by (simp add: agree_def)
  obtain r s where 1: "try_block (b\<lparr>fe_health := h\<rparr>) fe_initial = (r, s)" by force
  obtain r' s' where 2: "try_block b fe_initial = (r', s')" by force
  from related_try_block [where b = b and h = h] a 1 2 have "r = r'" "agree s s'"
    unfolding related_def by (metis fst_conv, metis snd_conv)
  then show ?thesis
    by (cases r') (simp_all add: run_frontend_def 1 2 agree_def append_result_def other_checks_def)
qed

lemma keeps_call: "keeps_api (fe_call b l r)"
  by (simp add: keeps_api_def fe_call_def)

lemma keeps_append: "l \<noteq> ApiProxy \<Longrightarrow> keeps_api (append_result l ok)"
  by (simp add: keeps_api_def append_result_def api_entries_def)

lemma keeps_then:
  assumes "keeps_api m" and "\<And>v. keeps_api (f v)"
  shows "keeps_api (fe_then m f)"
  unfolding keeps_api_def
proof
  fix s
  show "api_entries (results (snd (fe_then m f s))) = api_entries (results s)"
  proof (cases rule: fe_then_cases [of m s f])
    case (ret v t)
    from assms(1) have "api_entries (results (snd (m s))) = api_entries (results s)"
      by (simp add: keeps_api_def)
    moreover from assms(2) [of v] have "api_entries (results (snd (f v t))) = api_entries (results t)"
      by (simp add: keeps_api_def)
    ultimately show ?thesis using ret by simp
  next
    case (exc e t)
    from assms(1) have "api_entries (results (snd (m s))) = api_entries (results s)"
      by (simp add: keeps_api_def)
    then show ?thesis using exc by simp
  qed
qed

lemma keeps_test_1: "keeps_api (test_1 b)"
  unfolding test_1_def by (intro keeps_then keeps_call keeps_append) simp_all

lemma keeps_test_2: "keeps_api (test_2 b)"
  unfolding test_2_def by (intro keeps_then keeps_call keeps_append) simp_all

lemma keeps_test_4: "keeps_api (test_4 b)"
  unfolding test_4_def by (intro keeps_then keeps_call keeps_append) simp_all

lemma keeps_test_5: "keeps_api (test_5 b)"
proof -
  have "keeps_api (\<lambda>s. if failed_requests s \<noteq> [] then append_result ResourceLoad False s
              else append_result ResourceLoad True s)"
    by (simp add: keeps_api_def append_result_def api_entries_def)
  moreover have "keeps_api register_log_response"
    by (simp add: keeps_api_def register_log_response_def)
  ultimately show ?thesis
    unfolding test_5_def by (intro keeps_then keeps_call) simp_all
qed

lemma keeps_test_6: "keeps_api test_6"
  by (simp add: keeps_api_def test_6_def append_result_def api_entries_def)

lemma keeps_after_test_3:
  "keeps_api (fe_then (test_4 b) (\<lambda>_. fe_then (test_5 b) (\<lambda>_. test_6)))"
  by (intro keeps_then keeps_test_4 keeps_test_5 keeps_test_6)

lemma api_entries_append_result [simp]:
  "l \<noteq> ApiProxy \<Longrightarrow>
     api_entries (results (snd (append_result l ok s))) = api_entries (results s)"
  by (simp add: append_result_def api_entries_def)

lemma api_entries_run_frontend:
  "api_entries (results (run_frontend b)) = api_entries (results (snd (try_block b fe_initial)))"
proof (cases "try_block b fe_initial")
  case (Pair r s)
  then show ?thesis by (cases r) (simp_all add: run_frontend_def)
qed

lemma api_entries_run:
  "api_entries (results (run_frontend b)) =
     (if reaches_test_3 b then [(ApiProxy, api_ok b)] else [])"
proof -
  let ?rest = "fe_then (test_4 b) (\<lambda>_. fe_then (test_5 b) (\<lambda>_. test_6))"
  have k: "\<And>s. api_entries (results (snd (?rest s))) = api_entries (results s)"
    using keeps_after_test_3 [of b] by (simp add: keeps_api_def)
  have k1: "\<And>s. api_entries (results (snd (test_1 b s))) = api_entries (results s)"
    using keeps_test_1 [of b] by (simp add: keeps_api_def)
  have k2: "\<And>s. api_entries (results (snd (test_2 b s))) = api_entries (results s)"
    using keeps_test_2 [of b] by (simp add: keeps_api_def)
  have i: "api_entries (results fe_initial) = []"
    by (simp add: fe_initial_def api_entries_def)
  obtain r1 s1 where 1: "test_1 b fe_initial = (r1, s1)" by force
  obtain r2 s2 where 2: "test_2 b s1 = (r2, s2)" by force
  have a1: "api_entries (results s1) = []" using k1 [of fe_initial] 1 i by simp
  have a2: "api_entries (results s2) = []" using k2 [of s1] 2 a1 by simp
  have r1: "r1 = Returns () \<longleftrightarrow> returns (fe_act b 31) \<and> returns (fe_title b) \<and> returns (fe_act b 38)"
    using test_1_returns [of b fe_initial] 1 by (simp add: returns_iff)
  have r2: "r2 = Returns () \<longleftrightarrow> returns (fe_count b 45) \<and> returns (fe_count b 50)"
    using test_2_returns [of b s1] 2 by (simp add: returns_iff)
  show ?thesis
  proof (cases r1)
    case (Raises e)
    with r1 have "\<not> reaches_test_3 b" by (auto simp: reaches_test_3_def)
    with Raises 1 a1 show ?thesis
      by (simp add: api_entries_run_frontend try_block_def fe_then_def)
  next
    case (Returns u)
    note R1 = this
    show ?thesis
    proof (cases r2)
      case (Raises e)
      with r2 have "\<not> reaches_test_3 b" by (auto simp: reaches_test_3_def)
      with Raises R1 1 2 a2 show ?thesis
        by (simp add: api_entries_run_frontend try_block_def fe_then_def)
    next
      case (Returns u')
      with R1 r1 r2 have "reaches_test_3 b" by (simp add: reaches_test_3_def)
      moreover have "try_block b fe_initial =
          ?rest ((deliver b 58 s2)\<lparr>results := results s2 @ [(ApiProxy, api_ok b)]\<rparr>)"
        using R1 Returns 1 2 by (simp add: try_block_def fe_then_def test_3_state)
      ultimately show ?thesis
        using a2 by (simp add: api_entries_run_frontend k) (simp add: api_entries_def)
    qed
  qed
qed

lemma fe_healthy_sel [simp]:
  "fe_act fe_healthy l = Returns ()" "fe_title fe_healthy = Returns ''FlashSell''"
  "fe_url fe_healthy = ''http://localhost:3000/''" "fe_count fe_healthy l = Returns 1"
  "fe_health fe_healthy =
     Returns \<lparr>resp_url = ''http://localhost:3000/api/health'', resp_status = 200\<rparr>"
  "fe_console fe_healthy l = []" "fe_responses fe_healthy l = []"
  by (simp_all add: fe_healthy_def)

lemma results_fe_healthy:
  "results (run_frontend fe_healthy) =
     [(HomeVisit, True), (NavBar, True), (AuthButton, True), (ApiProxy, True),
      (ResponsiveDesign, True), (ResourceLoad, True), (JsNoErrors, True)]"
proof -
  have "guarded_calls_return fe_healthy" by (simp add: guarded_calls_return_def)
  then show ?thesis
    by (simp add: results_complete_run expected_results_def count_of_def api_ok_def
        failed_of_def error_texts_def page_call_lines_def)
qed

lemma results_fe_backend_down:
  "results (run_frontend fe_backend_down) =
     [(HomeVisit, True), (NavBar, True), (AuthButton, True), (ApiProxy, False),
      (ResponsiveDesign, True), (ResourceLoad, True), (JsNoErrors, True)]"
proof -
  have "guarded_calls_return fe_backend_down"
    by (simp add: guarded_calls_return_def fe_backend_down_def)
  then show ?thesis
    by (simp add: results_complete_run expected_results_def count_of_def api_ok_def
        failed_of_def error_texts_def page_call_lines_def fe_backend_down_def)
qed

subsection \<open>Exit status\<close>

text \<open>
  Claim C2. The value \<^verbatim>\<open>test_frontend\<close> returns, which \<^verbatim>\<open>sys.exit\<close> makes the exit
  status of the process, is 0 when every entry of \<^verbatim>\<open>results\<close> is true and 1
  otherwise.
\<close>

theorem test_frontend_exit_status:
  "test_frontend b = (if (\<forall>(l, ok) \<in> set (results (run_frontend b)). ok) then 0 else 1)"
  by (simp add: test_frontend_def exit_status_all)

theorem test_frontend_exit_status_witness:
  "results (run_frontend fe_healthy) =
     [(HomeVisit, True), (NavBar, True), (AuthButton, True), (ApiProxy, True),
      (ResponsiveDesign, True), (ResourceLoad, True), (JsNoErrors, True)] \<and>
   test_frontend fe_healthy = 0 \<and>
   results (run_frontend fe_backend_down) =
     [(HomeVisit, True), (NavBar, True), (AuthButton, True), (ApiProxy, False),
      (ResponsiveDesign, True), (ResourceLoad, True), (JsNoErrors, True)] \<and>
   test_frontend fe_backend_down = 1"
  using test_frontend_exit_status [of fe_healthy] test_frontend_exit_status [of fe_backend_down]
  by (simp add: results_fe_healthy results_fe_backend_down)

subsection \<open>Errors of the browser inside the run\<close>

lemma guarded_raise_fails_run:
  assumes "\<not> guarded_calls_return b"
  shows "(\<exists>e. fst (try_block b fe_initial) = Raises e) \<and>
         (TestExecution, False) \<in> set (results (run_frontend b)) \<and>
         test_frontend b = 1 \<and> browser_closed (run_frontend b)"
proof -
  have "fst (try_block b fe_initial) \<noteq> Returns ()"
    using assms by (simp add: try_block_returns)
  then have r: "\<exists>e. fst (try_block b fe_initial) = Raises e"
    by (cases "fst (try_block b fe_initial)") auto
  then obtain e where e: "fst (try_block b fe_initial) = Raises e" ..
  then have m: "(TestExecution, False) \<in> set (results (run_frontend b))"
    by (cases "try_block b fe_initial") (simp add: run_frontend_def append_result_def)
  then have "test_frontend b = 1"
    by (auto simp: test_frontend_def exit_status_all)
  with r m show ?thesis by (simp add: run_frontend_closed)
qed

lemma health_raise_fails_run:
  assumes "guarded_calls_return b" and "\<not> returns (fe_health b)"
  shows "(ApiProxy, False) \<in> set (results (run_frontend b))" and "test_frontend b = 1"
proof -
  from assms(2) have "\<not> api_ok b" by (cases "fe_health b") (simp_all add: api_ok_def)
  then show m: "(ApiProxy, False) \<in> set (results (run_frontend b))"
    by (simp add: results_complete_run [OF assms(1)] expected_results_def)
  then show "test_frontend b = 1"
    by (auto simp: test_frontend_def exit_status_all)
qed

lemma frontend_script_launched:
  assumes "drv_launch d = Returns ()" and "drv_new_page d = Returns ()"
  shows "frontend_script d b =
     \<lparr>fe_returned = Returns (test_frontend b), fe_results = results (run_frontend b),
      fe_session = ClosedByScript\<rparr>"
  using assms by (simp add: frontend_script_def run_frontend_closed leave_with_def)

text \<open>
  Claim C7, amended. Once the browser is launched and its page open, a raise of any page
  call of the run (the server cannot be reached, a navigation times out, the health
  request fails) does not leave \<^verbatim>\<open>test_frontend\<close>: the function returns 1, which is
  the exit status, with a failed entry in \<^verbatim>\<open>results\<close>, and the \<^verbatim>\<open>finally\<close> has
  closed the browser. A raise outside the health request is caught by the \<^verbatim>\<open>except\<close>
  of line 115 and gives the failed entry \<open>TestExecution\<close>; a raise of the health
  request alone is caught by its own handler (line 62) and gives the failed entry of the
  API proxy.
\<close>

theorem infrastructure_error_fails_run:
  assumes "drv_launch d = Returns ()" and "drv_new_page d = Returns ()"
    and "\<not> all_calls_return b"
  shows "fe_returned (frontend_script d b) = Returns 1 \<and>
         process_exit (fe_returned (frontend_script d b)) = 1 \<and>
         fe_session (frontend_script d b) = ClosedByScript \<and>
         (\<not> guarded_calls_return b \<longrightarrow>
            (\<exists>e. fst (try_block b fe_initial) = Raises e) \<and>
            (TestExecution, False) \<in> set (fe_results (frontend_script d b))) \<and>
         (guarded_calls_return b \<longrightarrow>
            (ApiProxy, False) \<in> set (fe_results (frontend_script d b)))"
proof (cases "guarded_calls_return b")
  case True
  with assms(3) have "\<not> returns (fe_health b)" by (simp add: all_calls_return_def)
  from health_raise_fails_run [OF True this] True show ?thesis
    by (simp add: frontend_script_launched [OF assms(1,2)] process_exit_def)
next
  case False
  from guarded_raise_fails_run [OF False] False show ?thesis
    by (simp add: frontend_script_launched [OF assms(1,2)] process_exit_def)
qed

theorem infrastructure_error_fails_run_witness:
  "drv_launch driver_fine = Returns () \<and> drv_new_page driver_fine = Returns () \<and>
   \<not> all_calls_return fe_unreachable \<and> \<not> guarded_calls_return fe_unreachable \<and>
   fe_returned (frontend_script driver_fine fe_unreachable) = Returns 1 \<and>
   fe_session (frontend_script driver_fine fe_unreachable) = ClosedByScript \<and>
   (TestExecution, False) \<in> set (fe_results (frontend_script driver_fine fe_unreachable)) \<and>
   \<not> all_calls_return fe_health_unreachable \<and> guarded_calls_return fe_health_unreachable \<and>
   fe_returned (frontend_script driver_fine fe_health_unreachable) = Returns 1 \<and>
   fe_session (frontend_script driver_fine fe_health_unreachable) = ClosedByScript \<and>
   (ApiProxy, False) \<in> set (fe_results (frontend_script driver_fine fe_health_unreachable))"
proof -
  have d: "drv_launch driver_fine = Returns ()" "drv_new_page driver_fine = Returns ()"
    by (simp_all add: driver_fine_def)
  have g1: "\<not> guarded_calls_return fe_unreachable"
    by (simp add: guarded_calls_return_def fe_unreachable_def)
  then have a1: "\<not> all_calls_return fe_unreachable" by (simp add: all_calls_return_def)
  have g2: "guarded_calls_return fe_health_unreachable"
    by (simp add: guarded_calls_return_def fe_health_unreachable_def)
  have a2: "\<not> all_calls_return fe_health_unreachable"
    by (simp add: all_calls_return_def fe_health_unreachable_def)
  note t1 = infrastructure_error_fails_run [OF d a1]
  note t2 = infrastructure_error_fails_run [OF d a2]
  from t1 g1 have c1:
    "fe_returned (frontend_script driver_fine fe_unreachable) = Returns 1"
    "fe_session (frontend_script driver_fine fe_unreachable) = ClosedByScript"
    "(TestExecution, False) \<in> set (fe_results (frontend_script driver_fine fe_unreachable))"
    by blast+
  from t2 g2 have c2:
    "fe_returned (frontend_script driver_fine fe_health_unreachable) = Returns 1"
    "fe_session (frontend_script driver_fine fe_health_unreachable) = ClosedByScript"
    "(ApiProxy, False) \<in> set (fe_results (frontend_script driver_fine fe_health_unreachable))"
    by blast+
  show ?thesis by (intro conjI) (fact d g1 a1 g2 a2 c1 c2)+
qed

text \<open>
  Claim C7 as it stands speaks of any infrastructure error of the run. The launch of the
  browser and the opening of the page (lines 14 and 15) come before the \<^verbatim>\<open>try\<close>: when
  either raises, the exception leaves \<^verbatim>\<open>test_frontend\<close> uncaught and no entry of
  \<^verbatim>\<open>results\<close> records it. The process still exits with a status other than 0, and
  no browser stays open.
\<close>

theorem launch_error_is_not_caught:
  "frontend_script driver_no_browser fe_healthy =
     \<lparr>fe_returned = Raises DriverError, fe_results = [], fe_session = NoBrowser\<rparr> \<and>
   frontend_script driver_no_page fe_healthy =
     \<lparr>fe_returned = Raises DriverError, fe_results = [], fe_session = StoppedWithDriver\<rparr> \<and>
   process_exit (fe_returned (frontend_script driver_no_browser fe_healthy)) = 1"
  by (simp add: frontend_script_def driver_no_browser_def driver_no_page_def leave_with_def
      process_exit_def)

subsection \<open>The health check and the other checks\<close>

text \<open>
  Claim C5. When the health endpoint answers with a status other than 200 and the run
  gets as far as test 3, \<^verbatim>\<open>results\<close> holds exactly one entry for the API proxy and
  it is false; the entries of all other checks are the ones the run has with any other
  answer \<open>h\<close> of the health endpoint.
\<close>

theorem health_status_only_affects_api_check:
  assumes "fe_health b = Returns r" and "resp_status r \<noteq> 200" and "reaches_test_3 b"
  shows "api_entries (results (run_frontend b)) = [(ApiProxy, False)] \<and>
         other_checks (results (run_frontend b)) =
           other_checks (results (run_frontend (b\<lparr>fe_health := h\<rparr>)))"
  using assms by (simp add: api_entries_run api_ok_def other_checks_frame)

theorem health_status_only_affects_api_check_witness:
  "fe_health fe_backend_down =
     Returns \<lparr>resp_url = ''http://localhost:3000/api/health'', resp_status = 503\<rparr> \<and>
   resp_status \<lparr>resp_url = ''http://localhost:3000/api/health'', resp_status = 503\<rparr> \<noteq> 200 \<and>
   reaches_test_3 fe_backend_down \<and>
   api_entries (results (run_frontend fe_backend_down)) = [(ApiProxy, False)] \<and>
   other_checks (results (run_frontend fe_backend_down)) =
     other_checks (results (run_frontend fe_healthy))"
proof -
  let ?r = "\<lparr>resp_url = ''http://localhost:3000/api/health'', resp_status = 503\<rparr>"
  have 1: "fe_health fe_backend_down = Returns ?r" by (simp add: fe_backend_down_def)
  have 2: "resp_status ?r \<noteq> 200" by simp
  have 3: "reaches_test_3 fe_backend_down"
    by (simp add: reaches_test_3_def fe_backend_down_def)
  have 4: "fe_backend_down\<lparr>fe_health := fe_health fe_healthy\<rparr> = fe_healthy"
    by (simp add: fe_backend_down_def fe_healthy_def)
  from health_status_only_affects_api_check [OF 1 2 3, of "fe_health fe_healthy"] 1 2 3
  show ?thesis unfolding 4 by simp
qed

subsection \<open>Console errors of the whole run\<close>

text \<open>
  Claim C10. The console listener is in place from the first page call on. In a run
  that reaches test 6, the entry for JavaScript errors is false exactly when some page
  call of the run, from the first navigation (line 31) to the reload (line 93),
  delivered a console message of type \<^verbatim>\<open>error\<close>, and true exactly when none did.
\<close>

theorem console_errors_accumulate_over_run:
  assumes "fst (try_block b fe_initial) = Returns ()"
  shows "((JsNoErrors, False) \<in> set (results (run_frontend b)) \<longleftrightarrow>
            (\<exists>l \<in> set page_call_lines. \<exists>m \<in> set (fe_console b l). msg_type m = ''error'')) \<and>
         ((JsNoErrors, True) \<in> set (results (run_frontend b)) \<longleftrightarrow>
            \<not> (\<exists>l \<in> set page_call_lines. \<exists>m \<in> set (fe_console b l). msg_type m = ''error''))"
proof -
  from assms have g: "guarded_calls_return b" by (simp add: try_block_returns)
  have "concat (map (error_texts b) page_call_lines) = [] \<longleftrightarrow>
        \<not> (\<exists>l \<in> set page_call_lines. \<exists>m \<in> set (fe_console b l). msg_type m = ''error'')"
    by (auto simp: error_texts_def filter_empty_conv)
  then show ?thesis
    by (simp add: results_complete_run [OF g] expected_results_def)
qed

theorem console_errors_accumulate_over_run_witness:
  "fst (try_block fe_early_error fe_initial) = Returns () \<and>
   (JsNoErrors, False) \<in> set (results (run_frontend fe_early_error)) \<and>
   (\<exists>m \<in> set (fe_console fe_early_error 31). msg_type m = ''error'') \<and>
   fe_console fe_early_error 93 = []"
proof -
  have h: "fst (try_block fe_early_error fe_initial) = Returns ()"
    by (simp add: try_block_returns guarded_calls_return_def fe_early_error_def)
  from console_errors_accumulate_over_run [OF h] h show ?thesis
    by (simp add: fe_early_error_def page_call_lines_def)
qed

section \<open>Proofs about programs with a trace\<close>

lemma fst_and_then:
  "fst (and_then m f) = (case fst m of Returns v \<Rightarrow> fst (f v) | Raises e \<Rightarrow> Raises e)"
  by (cases m; cases "fst m") (auto simp: and_then_def split: prod.splits)

lemma snd_and_then:
  "snd (and_then m f) = snd m @ (case fst m of Returns v \<Rightarrow> snd (f v) | Raises e \<Rightarrow> [])"
  by (cases m; cases "fst m") (auto simp: and_then_def split: prod.splits)

lemma prog_simps [simp]:
  "fst (call r) = r" "snd (call r) = []"
  "fst (emit ev) = Returns ()" "snd (emit ev) = [ev]"
  "fst (say l) = Returns ()" "snd (say l) = [Print l]"
  "fst skip = Returns ()" "snd skip = []"
  by (simp_all add: call_def emit_def say_def skip_def)

lemma sequence_Cons_returns:
  "fst m = Returns () \<Longrightarrow> sequence (m # ms) = (fst (sequence ms), snd m @ snd (sequence ms))"
  by (simp add: prod_eq_iff fst_and_then snd_and_then)

lemma fst_sequence_returns:
  "fst (sequence ms) = Returns () \<longleftrightarrow> (\<forall>m \<in> set ms. fst m = Returns ())"
proof (induction ms)
  case Nil
  then show ?case by simp
next
  case (Cons m ms)
  then show ?case by (cases "fst m") (auto simp: fst_and_then)
qed

lemma snd_sequence_returns:
  "fst (sequence ms) = Returns () \<Longrightarrow> snd (sequence ms) = concat (map snd ms)"
proof (induction ms)
  case Nil
  then show ?case by simp
next
  case (Cons m ms)
  then show ?case by (cases "fst m") (auto simp: fst_and_then snd_and_then)
qed

lemma set_snd_sequence: "set (snd (sequence ms)) \<subseteq> (\<Union>m \<in> set ms. set (snd m))"
proof (induction ms)
  case Nil
  then show ?case by simp
next
  case (Cons m ms)
  then show ?case by (cases "fst m") (auto simp: snd_and_then)
qed

lemma filter_snd_sequence_empty:
  assumes "\<And>m. m \<in> set ms \<Longrightarrow> filter P (snd m) = []"
  shows "filter P (snd (sequence ms)) = []"
  using assms set_snd_sequence [of ms] by (fastforce simp: filter_empty_conv)

lemma screenshots_append [simp]: "screenshots (xs @ ys) = screenshots xs @ screenshots ys"
  by (induction xs rule: screenshots.induct) simp_all

lemma screenshots_concat: "screenshots (concat xss) = concat (map screenshots xss)"
  by (induction xss) simp_all

lemma set_screenshots: "n \<in> set (screenshots t) \<longleftrightarrow> Screenshot n \<in> set t"
  by (induction t rule: screenshots.induct) auto

section \<open>Proofs about the responsive script\<close>

subsection \<open>The blocks of the page check\<close>

lemma check_scroll_trace:
  "pv_scroll_width v = Returns sw \<Longrightarrow>
     check_scroll w v = (Returns (), [Print (if sw > w + 10 then ScrollFail sw w else ScrollOk sw)])"
  by (simp add: check_scroll_def prod_eq_iff fst_and_then snd_and_then)

lemma filter_check_scroll:
  assumes "\<And>a c. \<not> P (Print (ScrollFail a c))" and "\<And>a. \<not> P (Print (ScrollOk a))"
  shows "filter P (snd (check_scroll w v)) = []"
  using assms by (cases "pv_scroll_width v") (simp_all add: check_scroll_def snd_and_then)

lemma filter_check_sidebar:
  assumes "\<not> P (Print NavMobile)" and "\<not> P (Print NavDesktop)"
  shows "filter P (snd (check_sidebar w v)) = []"
  using assms by (cases "pv_sidebar_visible v") (simp_all add: check_sidebar_def snd_and_then)

lemma filter_check_main:
  assumes "\<And>a. \<not> P (Print (MainVisible a))"
  shows "filter P (snd (check_main v)) = []"
  using assms
  by (cases "pv_main_visible v"; cases "pv_main_width v") (simp_all add: check_main_def snd_and_then)

lemma filter_check_cards:
  assumes "\<And>n a. \<not> P (Print (CardsFound n a))"
  shows "filter P (snd (check_cards v)) = []"
  using assms
  by (cases "pv_card_count v"; cases "pv_card_width v") (simp_all add: check_cards_def snd_and_then)

lemma filter_check_touch:
  assumes "\<not> P (Print TouchOk)" and "\<And>n. \<not> P (Print (TouchWarn n))"
  shows "filter P (snd (check_touch w v)) = []"
proof (cases "pv_buttons v")
  case (Returns btns)
  with assms show ?thesis
    by (cases "count_small (take 5 btns) 0") (simp_all add: check_touch_def snd_and_then)
next
  case (Raises e)
  then show ?thesis by (simp add: check_touch_def snd_and_then)
qed

lemma filter_take_screenshot:
  assumes "\<And>n. \<not> P (Screenshot n)" and "\<And>n. \<not> P (Print (Saved n))"
  shows "filter P (snd (take_screenshot d p ts v)) = []"
  using assms
  by (cases "pv_screenshot v") (simp_all add: take_screenshot_def Let_def snd_and_then)

lemma count_small_returns:
  "\<forall>r \<in> set btns. returns r \<Longrightarrow>
     count_small btns n = Returns (n + length (filter undersized btns))"
  by (induction btns n rule: count_small.induct) (simp_all add: Let_def)

lemma quiet_visit_sel [simp]:
  "pv_goto quiet_visit = Returns ()" "pv_idle quiet_visit = Returns ()"
  "pv_settle quiet_visit = Returns ()" "pv_scroll_width quiet_visit = Returns 360"
  "pv_sidebar_visible quiet_visit = Returns False" "pv_main_visible quiet_visit = Returns False"
  "pv_card_count quiet_visit = Returns 0" "pv_buttons quiet_visit = Returns []"
  "pv_screenshot quiet_visit = Returns ()"
  by (simp_all add: quiet_visit_def)

lemma check_page_quiet_blocks [simp]:
  "check_sidebar w (quiet_visit\<lparr>pv_scroll_width := x\<rparr>) = (Returns (), [])"
  "check_main (quiet_visit\<lparr>pv_scroll_width := x\<rparr>) = (Returns (), [])"
  "check_cards (quiet_visit\<lparr>pv_scroll_width := x\<rparr>) = (Returns (), [])"
  by (simp_all add: check_sidebar_def check_main_def check_cards_def prod_eq_iff
      fst_and_then snd_and_then)

subsection \<open>Complete runs of the matrix\<close>

lemma screenshots_no_screenshot: "filter is_screenshot t = [] \<Longrightarrow> screenshots t = []"
  by (induction t rule: screenshots.induct) (simp_all split: if_splits)

lemma sequence_map_returns:
  assumes "fst (sequence (map f xs)) = Returns ()"
  shows "\<forall>x \<in> set xs. fst (f x) = Returns ()"
    and "snd (sequence (map f xs)) = concat (map (\<lambda>x. snd (f x)) xs)"
  using assms fst_sequence_returns [of "map f xs"] snd_sequence_returns [of "map f xs"]
  by (simp_all add: comp_def)

lemma fst_take_screenshot [simp]: "fst (take_screenshot d p ts v) = pv_screenshot v"
  by (cases "pv_screenshot v") (simp_all add: take_screenshot_def Let_def fst_and_then)

lemma snd_take_screenshot:
  "pv_screenshot v = Returns () \<Longrightarrow>
     snd (take_screenshot d p ts v) =
       [Screenshot (screenshot_name d p ts), Print (Saved (screenshot_name d p ts))]"
  by (simp add: take_screenshot_def Let_def snd_and_then)

lemma check_page_complete:
  assumes "fst (check_page d w p ts v) = Returns ()"
  shows "screenshots (snd (check_page d w p ts v)) = [screenshot_name d (snd p) ts]"
    and "filter is_header (snd (check_page d w p ts v)) = [Print (PageHeader (snd p))]"
proof -
  let ?ms = "[say (PageHeader (snd p)), emit (Goto (''http://localhost:3001'' @ fst p)),
        call (pv_goto v), call (pv_idle v), call (pv_settle v), check_scroll w v,
        check_sidebar w v, check_main v, check_cards v, check_touch w v,
        take_screenshot d (snd p) ts v]"
  from assms have r: "fst (sequence ?ms) = Returns ()" by (simp only: check_page_def)
  then have "fst (take_screenshot d (snd p) ts v) = Returns ()"
    unfolding fst_sequence_returns by simp
  then have shot: "snd (take_screenshot d (snd p) ts v) =
      [Screenshot (screenshot_name d (snd p) ts), Print (Saved (screenshot_name d (snd p) ts))]"
    by (simp add: snd_take_screenshot)
  have t: "snd (check_page d w p ts v) = concat (map snd ?ms)"
    using snd_sequence_returns [OF r] by (simp only: check_page_def)
  have s: "screenshots (snd (check_scroll w v)) = []" "screenshots (snd (check_sidebar w v)) = []"
    "screenshots (snd (check_main v)) = []" "screenshots (snd (check_cards v)) = []"
    "screenshots (snd (check_touch w v)) = []"
    by (simp_all add: screenshots_no_screenshot filter_check_scroll filter_check_sidebar
        filter_check_main filter_check_cards filter_check_touch)
  show "screenshots (snd (check_page d w p ts v)) = [screenshot_name d (snd p) ts]"
    unfolding t by (simp add: s shot)
  show "filter is_header (snd (check_page d w p ts v)) = [Print (PageHeader (snd p))]"
    unfolding t
    by (simp add: shot filter_check_scroll filter_check_sidebar filter_check_main
        filter_check_cards filter_check_touch)
qed

lemma test_device_complete:
  assumes "fst (test_device b ts (d, w, h)) = Returns ()"
  shows "screenshots (snd (test_device b ts (d, w, h))) =
           map (\<lambda>(u, p). screenshot_name d p ts) PAGES_TO_TEST"
    and "filter is_header (snd (test_device b ts (d, w, h))) =
           Print (DeviceHeader d w h) # map (\<lambda>(u, p). Print (PageHeader p)) PAGES_TO_TEST"
proof -
  let ?f = "\<lambda>page_info. check_page d w page_info ts (rs_visit b d (snd page_info))"
  let ?ms = "[say (DeviceHeader d w h), emit (Resize w h), call (rs_resize b d 62),
              call (rs_resize b d 63), sequence (map ?f PAGES_TO_TEST)]"
  from assms have r: "fst (sequence ?ms) = Returns ()" by (simp only: test_device_def prod.case)
  have pages: "fst (sequence (map ?f PAGES_TO_TEST)) = Returns ()"
    using r [unfolded fst_sequence_returns [of ?ms]] by simp
  note each = sequence_map_returns [OF pages]
  have t: "snd (test_device b ts (d, w, h)) =
      [Print (DeviceHeader d w h), Resize w h] @ concat (map (\<lambda>x. snd (?f x)) PAGES_TO_TEST)"
    using snd_sequence_returns [OF r] each(2) by (simp add: test_device_def)
  have "concat (map (\<lambda>x. screenshots (snd (?f x))) PAGES_TO_TEST) =
        concat (map (\<lambda>x. [screenshot_name d (snd x) ts]) PAGES_TO_TEST)"
    using each(1) by (intro arg_cong [where f = concat] map_cong refl) (simp add: check_page_complete)
  then show "screenshots (snd (test_device b ts (d, w, h))) =
      map (\<lambda>(u, p). screenshot_name d p ts) PAGES_TO_TEST"
    unfolding t by (simp add: screenshots_concat comp_def case_prod_unfold)
  have "concat (map (\<lambda>x. filter is_header (snd (?f x))) PAGES_TO_TEST) =
        concat (map (\<lambda>x. [Print (PageHeader (snd x))]) PAGES_TO_TEST)"
    using each(1) by (intro arg_cong [where f = concat] map_cong refl) (simp add: check_page_complete)
  then show "filter is_header (snd (test_device b ts (d, w, h))) =
      Print (DeviceHeader d w h) # map (\<lambda>(u, p). Print (PageHeader p)) PAGES_TO_TEST"
    unfolding t by (simp add: filter_concat comp_def case_prod_unfold)
qed

lemma rs_login_no_screenshot_no_header:
  "screenshots (snd (rs_login b)) = []" "filter is_header (snd (rs_login b)) = []"
proof -
  have "filter P (snd (rs_login b)) = []"
    if "\<not> P (Print Started)" "\<not> P (Print LoginStarted)" "\<not> P (Print LoginOk)"
      "\<not> P (Print LoginWarn)" "\<And>u. \<not> P (Goto u)" for P
    unfolding rs_login_def
    by (rule filter_snd_sequence_empty) (use that in \<open>auto split: outcome.splits\<close>)
  from this [of is_screenshot] this [of is_header]
  show "screenshots (snd (rs_login b)) = []" "filter is_header (snd (rs_login b)) = []"
    by (simp_all add: screenshots_no_screenshot)
qed

lemma complete_run_parts:
  assumes "fst (test_responsive_design b) = Returns ()"
  shows "fst (rs_login b) = Returns ()"
    and "\<forall>dev \<in> set DEVICE_SIZES. fst (test_device b (strftime (rs_clock b)) dev) = Returns ()"
    and "snd (test_responsive_design b) =
           snd (rs_login b) @
           concat (map (\<lambda>dev. snd (test_device b (strftime (rs_clock b)) dev)) DEVICE_SIZES) @
           [BrowserClose, Print Finished, Print (DevicesTested (length DEVICE_SIZES)),
            Print (PagesTested (length PAGES_TO_TEST)),
            Print (ShotsTaken (length DEVICE_SIZES * length PAGES_TO_TEST)), Print Coverage]"
proof -
  let ?ts = "strftime (rs_clock b)"
  let ?matrix = "sequence (map (test_device b ?ts) DEVICE_SIZES)"
  let ?ms = "[?matrix, emit BrowserClose, say Finished, say (DevicesTested (length DEVICE_SIZES)),
      say (PagesTested (length PAGES_TO_TEST)),
      say (ShotsTaken (length DEVICE_SIZES * length PAGES_TO_TEST)), say Coverage]"
  have a: "rs_after_login b = sequence ?ms" by (simp only: rs_after_login_def Let_def)
  from assms show l: "fst (rs_login b) = Returns ()"
    by (cases "fst (rs_login b)") (simp_all add: test_responsive_design_def fst_and_then)
  with assms have r: "fst (sequence ?ms) = Returns ()"
    by (simp add: test_responsive_design_def fst_and_then a del: sequence.simps)
  have m: "fst ?matrix = Returns ()"
    using r [unfolded fst_sequence_returns [of ?ms]] by simp
  note each = sequence_map_returns [OF m]
  from each(1) show "\<forall>dev \<in> set DEVICE_SIZES. fst (test_device b ?ts dev) = Returns ()" .
  have "snd (test_responsive_design b) = snd (rs_login b) @ snd (sequence ?ms)"
    using l by (simp add: test_responsive_design_def snd_and_then a del: sequence.simps)
  also have "snd (sequence ?ms) = concat (map snd ?ms)" by (rule snd_sequence_returns [OF r])
  finally show "snd (test_responsive_design b) =
           snd (rs_login b) @ concat (map (\<lambda>dev. snd (test_device b ?ts dev)) DEVICE_SIZES) @
           [BrowserClose, Print Finished, Print (DevicesTested (length DEVICE_SIZES)),
            Print (PagesTested (length PAGES_TO_TEST)),
            Print (ShotsTaken (length DEVICE_SIZES * length PAGES_TO_TEST)), Print Coverage]"
    by (simp add: each(2))
qed

lemma screenshots_complete_run:
  assumes "fst (test_responsive_design b) = Returns ()"
  shows "screenshots (snd (test_responsive_design b)) = matrix_screenshots (strftime (rs_clock b))"
proof -
  note p = complete_run_parts [OF assms]
  have "concat (map (\<lambda>dev. screenshots (snd (test_device b (strftime (rs_clock b)) dev))) DEVICE_SIZES) =
        concat (map (\<lambda>(d, w, h). map (\<lambda>(u, p). screenshot_name d p (strftime (rs_clock b))) PAGES_TO_TEST)
          DEVICE_SIZES)"
    using p(2) by (intro arg_cong [where f = concat] map_cong refl) (auto simp: test_device_complete)
  then show ?thesis
    unfolding p(3) matrix_screenshots_def
    by (simp add: screenshots_concat comp_def rs_login_no_screenshot_no_header)
qed

lemma headers_complete_run:
  assumes "fst (test_responsive_design b) = Returns ()"
  shows "filter is_header (snd (test_responsive_design b)) = matrix_headers"
proof -
  note p = complete_run_parts [OF assms]
  have "concat (map (\<lambda>dev. filter is_header (snd (test_device b (strftime (rs_clock b)) dev))) DEVICE_SIZES) =
        concat (map (\<lambda>(d, w, h). Print (DeviceHeader d w h) #
            map (\<lambda>(u, p). Print (PageHeader p)) PAGES_TO_TEST) DEVICE_SIZES)"
    using p(2) by (intro arg_cong [where f = concat] map_cong refl) (auto simp: test_device_complete)
  then show ?thesis
    unfolding p(3) matrix_headers_def
    by (simp add: filter_concat comp_def rs_login_no_screenshot_no_header)
qed

lemma length_matrix_screenshots: "length (matrix_screenshots ts) = 36"
  by (simp add: matrix_screenshots_def DEVICE_SIZES_def PAGES_TO_TEST_def)

lemma summary_complete_run:
  assumes "fst (test_responsive_design b) = Returns ()"
  shows "suffix [BrowserClose, Print Finished, Print (DevicesTested 6), Print (PagesTested 6),
                 Print (ShotsTaken 36), Print Coverage]
           (snd (test_responsive_design b))"
proof -
  have "length DEVICE_SIZES = 6" "length PAGES_TO_TEST = 6"
    by (simp_all add: DEVICE_SIZES_def PAGES_TO_TEST_def)
  then show ?thesis
    unfolding complete_run_parts(3) [OF assms] suffix_def
    by (simp del: append_assoc add: append_assoc [symmetric])
qed

lemma distinct_matrix_screenshots: "distinct (matrix_screenshots ts)"
  by (simp add: matrix_screenshots_def DEVICE_SIZES_def PAGES_TO_TEST_def screenshot_name_def
      replace_spaces_def)

lemma count_small_all_return:
  "count_small btns n = Returns k \<Longrightarrow> \<forall>r \<in> set btns. returns r"
  by (induction btns n rule: count_small.induct) (auto simp: Let_def split: if_splits)

lemma check_touch_trace:
  assumes "pv_buttons v = Returns btns"
  shows "(\<forall>r \<in> set (take 5 btns). returns r) \<Longrightarrow>
           check_touch w v =
             (Returns (),
              if w \<le> 480
              then [Print (if undersized_count btns = 0 then TouchOk
                           else TouchWarn (undersized_count btns))]
              else [])"
    and "fst (check_touch w v) = Returns () \<Longrightarrow>
           snd (check_touch w v) =
             (if w \<le> 480
              then [Print (if undersized_count btns = 0 then TouchOk
                           else TouchWarn (undersized_count btns))]
              else [])"
proof -
  show 1: "check_touch w v =
             (Returns (),
              if w \<le> 480
              then [Print (if undersized_count btns = 0 then TouchOk
                           else TouchWarn (undersized_count btns))]
              else [])" if "\<forall>r \<in> set (take 5 btns). returns r"
    using assms that
    by (simp add: check_touch_def prod_eq_iff fst_and_then snd_and_then count_small_returns
        undersized_count_def)
  assume r: "fst (check_touch w v) = Returns ()"
  show "snd (check_touch w v) =
             (if w \<le> 480
              then [Print (if undersized_count btns = 0 then TouchOk
                           else TouchWarn (undersized_count btns))]
              else [])"
  proof (cases "w \<le> 480")
    case True
    with r assms obtain k where "count_small (take 5 btns) 0 = Returns k"
      by (cases "count_small (take 5 btns) 0") (simp_all add: check_touch_def fst_and_then)
    then have "\<forall>r \<in> set (take 5 btns). returns r" by (rule count_small_all_return)
    from 1 [OF this] show ?thesis by simp
  next
    case False
    then show ?thesis by (simp add: check_touch_def)
  qed
qed

lemma check_page_touch_lines:
  assumes "fst (check_page d w p ts v) = Returns ()"
  shows "filter is_touch_line (snd (check_page d w p ts v)) = snd (check_touch w v)"
proof -
  let ?ms = "[say (PageHeader (snd p)), emit (Goto (''http://localhost:3001'' @ fst p)),
        call (pv_goto v), call (pv_idle v), call (pv_settle v), check_scroll w v,
        check_sidebar w v, check_main v, check_cards v, check_touch w v,
        take_screenshot d (snd p) ts v]"
  from assms have r: "fst (sequence ?ms) = Returns ()" by (simp only: check_page_def)
  have t: "snd (check_page d w p ts v) = concat (map snd ?ms)"
    using snd_sequence_returns [OF r] by (simp only: check_page_def)
  have "filter is_touch_line (snd (check_touch w v)) = snd (check_touch w v)"
  proof (cases "pv_buttons v")
    case (Returns btns)
    then show ?thesis
      by (cases "count_small (take 5 btns) 0") (simp_all add: check_touch_def snd_and_then)
  next
    case (Raises e)
    then show ?thesis by (simp add: check_touch_def snd_and_then)
  qed
  then show ?thesis
    unfolding t
    by (simp add: filter_check_scroll filter_check_sidebar filter_check_main
        filter_check_cards filter_take_screenshot)
qed

subsection \<open>The concrete runs\<close>

lemma quiet_visit_scroll: "quiet_visit = quiet_visit\<lparr>pv_scroll_width := Returns 360\<rparr>"
  by (simp add: quiet_visit_def)

lemma check_page_quiet_returns:
  "fst (check_page d w p ts (quiet_visit\<lparr>pv_scroll_width := Returns n\<rparr>)) = Returns ()"
  unfolding check_page_def fst_sequence_returns
  by (simp add: check_scroll_trace check_touch_def fst_and_then)

lemma run_returns_if:
  assumes "\<forall>l \<in> set [38, 39, 42, 43, 44]. rs_login_act b l = Returns ()"
    and "\<And>d. rs_resize b d 62 = Returns ()" and "\<And>d. rs_resize b d 63 = Returns ()"
    and "\<And>d w p. fst (check_page d w p (strftime (rs_clock b)) (rs_visit b d (snd p))) = Returns ()"
  shows "fst (test_responsive_design b) = Returns ()"
proof -
  have l: "fst (rs_login b) = Returns ()"
    unfolding rs_login_def fst_sequence_returns using assms(1) by (auto split: outcome.splits)
  have d: "fst (test_device b (strftime (rs_clock b)) dev) = Returns ()" for dev
  proof -
    obtain d w h where dev: "dev = (d, w, h)" by (cases dev)
    show ?thesis
      unfolding dev test_device_def prod.case fst_sequence_returns
      using assms(2-4) by (auto simp: fst_sequence_returns)
  qed
  have "fst (rs_after_login b) = Returns ()"
    unfolding rs_after_login_def Let_def fst_sequence_returns
    using d by (auto simp: fst_sequence_returns)
  with l show ?thesis by (simp add: test_responsive_design_def fst_and_then)
qed

lemma rs_fine_sel [simp]:
  "rs_login_act rs_fine l = Returns ()" "rs_wait_for_url rs_fine = Returns ()"
  "rs_clock rs_fine =
     \<lparr>tm_year = 2026, tm_mon = 11, tm_mday = 3, tm_hour = 14, tm_min = 1, tm_sec = 0\<rparr>"
  "rs_resize rs_fine d l = Returns ()" "rs_visit rs_fine d p = quiet_visit"
  by (simp_all add: rs_fine_def)

lemma rs_fine_returns: "fst (test_responsive_design rs_fine) = Returns ()"
  by (rule run_returns_if) (simp_all add: check_page_quiet_returns [of _ _ _ _ 360, folded quiet_visit_scroll])

lemma rs_login_timeout_returns: "fst (test_responsive_design rs_login_timeout) = Returns ()"
  by (rule run_returns_if)
    (simp_all add: rs_login_timeout_def
      check_page_quiet_returns [of _ _ _ _ 360, folded quiet_visit_scroll])

lemma rs_overflowing_returns: "fst (test_responsive_design rs_overflowing) = Returns ()"
  by (rule run_returns_if)
    (simp_all add: rs_overflowing_def overflowing_visit_def check_page_quiet_returns
      check_page_quiet_returns [of _ _ _ _ 360, folded quiet_visit_scroll])

declare decimal.simps [simp del]

lemma decimal_step: "10 \<le> n \<Longrightarrow> decimal n = decimal (n div 10) @ [digit n]"
  by (subst decimal.simps) simp

lemma decimal_digit: "n < 10 \<Longrightarrow> decimal n = [digit n]"
  by (subst decimal.simps) simp

lemma decimal_four_digits:
  assumes "1000 \<le> n" and "n \<le> 9999"
  shows "decimal n = [digit (n div 10 div 10 div 10), digit (n div 10 div 10), digit (n div 10), digit n]"
proof -
  from assms have "10 \<le> n" "10 \<le> n div 10" "10 \<le> n div 10 div 10" "n div 10 div 10 div 10 < 10"
    by simp_all
  then show ?thesis by (simp add: decimal_step decimal_digit)
qed

lemma is_digit_digit [simp]: "is_digit (digit n)"
  unfolding is_digit_def digit_def by (rule nth_mem) simp

lemma strftime_is_timestamp: "valid_tm t \<Longrightarrow> is_timestamp (strftime t)"
  by (simp add: valid_tm_def strftime_def is_timestamp_def decimal_four_digits two_digits_def)

lemma strftime_rs_fine: "strftime (rs_clock rs_fine) = ''20261103_140100''"
  by (simp add: strftime_def decimal_four_digits two_digits_def digit_def)

lemma strftime_rs_later: "strftime (rs_clock rs_later) = ''20261103_140200''"
  by (simp add: rs_later_def strftime_def decimal_four_digits two_digits_def digit_def)

subsection \<open>Screenshot names\<close>

lemma screenshot_name_timestamp:
  assumes "screenshot_name d p ts = screenshot_name d' p' ts'" and "length ts = length ts'"
  shows "ts = ts'"
proof -
  define x where "x = replace_spaces d @ ''_'' @ p @ ''_''"
  define x' where "x' = replace_spaces d' @ ''_'' @ p' @ ''_''"
  from assms(1) have "(x @ ts) @ ''.png'' = (x' @ ts') @ ''.png''"
    by (simp add: screenshot_name_def x_def x'_def)
  then have "x @ ts = x' @ ts'" by (simp only: append_same_eq)
  with assms(2) show ?thesis by simp
qed

lemma no_screenshot_in:
  "filter is_screenshot t = [] \<Longrightarrow> Screenshot n \<notin> set t"
  by (auto simp: filter_empty_conv)

lemma screenshot_in_check_page:
  assumes "Screenshot n \<in> set (snd (check_page d w p ts v))"
  shows "n = screenshot_name d (snd p) ts"
proof -
  have "Screenshot n \<notin> set (snd (check_scroll w v))" "Screenshot n \<notin> set (snd (check_sidebar w v))"
    "Screenshot n \<notin> set (snd (check_main v))" "Screenshot n \<notin> set (snd (check_cards v))"
    "Screenshot n \<notin> set (snd (check_touch w v))"
    by (simp_all add: no_screenshot_in filter_check_scroll filter_check_sidebar
        filter_check_main filter_check_cards filter_check_touch)
  moreover have "Screenshot n \<in> set (snd (take_screenshot d (snd p) ts v)) \<Longrightarrow>
      n = screenshot_name d (snd p) ts"
    by (cases "pv_screenshot v") (simp_all add: take_screenshot_def Let_def snd_and_then)
  ultimately show ?thesis
    using assms set_snd_sequence [of "[say (PageHeader (snd p)),
        emit (Goto (''http://localhost:3001'' @ fst p)),
        call (pv_goto v), call (pv_idle v), call (pv_settle v), check_scroll w v,
        check_sidebar w v, check_main v, check_cards v, check_touch w v,
        take_screenshot d (snd p) ts v]"]
    unfolding check_page_def by auto
qed

lemma screenshot_in_test_device:
  assumes "Screenshot n \<in> set (snd (test_device b ts dev))"
  shows "\<exists>d p. n = screenshot_name d p ts"
proof -
  obtain d w h where dev: "dev = (d, w, h)" by (cases dev)
  let ?f = "\<lambda>page_info. check_page d w page_info ts (rs_visit b d (snd page_info))"
  from assms have "Screenshot n \<in> set (snd (sequence (map ?f PAGES_TO_TEST)))"
    using set_snd_sequence [of "[say (DeviceHeader d w h), emit (Resize w h),
        call (rs_resize b d 62), call (rs_resize b d 63), sequence (map ?f PAGES_TO_TEST)]"]
    unfolding dev test_device_def by auto
  then obtain x where "Screenshot n \<in> set (snd (?f x))"
    using set_snd_sequence [of "map ?f PAGES_TO_TEST"] by auto
  then show ?thesis by (blast dest: screenshot_in_check_page)
qed

lemma screenshot_in_run:
  assumes "Screenshot n \<in> set (snd (test_responsive_design b))"
  shows "\<exists>d p. n = screenshot_name d p (strftime (rs_clock b))"
proof -
  let ?ts = "strftime (rs_clock b)"
  let ?matrix = "sequence (map (test_device b ?ts) DEVICE_SIZES)"
  have "Screenshot n \<notin> set (snd (rs_login b))"
    using rs_login_no_screenshot_no_header(1) [of b] by (simp add: set_screenshots [symmetric])
  with assms have "Screenshot n \<in> set (snd (rs_after_login b))"
    by (cases "fst (rs_login b)") (auto simp: test_responsive_design_def snd_and_then)
  then have "Screenshot n \<in> set (snd ?matrix)"
    using set_snd_sequence [of "[?matrix, emit BrowserClose, say Finished,
        say (DevicesTested (length DEVICE_SIZES)), say (PagesTested (length PAGES_TO_TEST)),
        say (ShotsTaken (length DEVICE_SIZES * length PAGES_TO_TEST)), say Coverage]"]
    unfolding rs_after_login_def Let_def by auto
  then obtain dev where "Screenshot n \<in> set (snd (test_device b ?ts dev))"
    using set_snd_sequence [of "map (test_device b ?ts) DEVICE_SIZES"] by auto
  then show ?thesis by (rule screenshot_in_test_device)
qed

lemma matrix_screenshot_mem:
  "(d, w, h) \<in> set DEVICE_SIZES \<Longrightarrow> (u, p) \<in> set PAGES_TO_TEST \<Longrightarrow>
     screenshot_name d p ts \<in> set (matrix_screenshots ts)"
  unfolding matrix_screenshots_def by force

lemma sublist_screenshot_name:
  "sublist (replace_spaces d) (screenshot_name d p ts)"
  "sublist p (screenshot_name d p ts)" "sublist ts (screenshot_name d p ts)"
proof -
  show "sublist (replace_spaces d) (screenshot_name d p ts)"
    unfolding screenshot_name_def by (rule sublist_appendI)
  have "screenshot_name d p ts = (''responsive_'' @ replace_spaces d @ ''_'') @ p @ (''_'' @ ts @ ''.png'')"
    by (simp add: screenshot_name_def)
  then show "sublist p (screenshot_name d p ts)" by (simp only: sublist_appendI)
  have "screenshot_name d p ts = (''responsive_'' @ replace_spaces d @ ''_'' @ p @ ''_'') @ ts @ ''.png''"
    by (simp add: screenshot_name_def)
  then show "sublist ts (screenshot_name d p ts)" by (simp only: sublist_appendI)
qed

subsection \<open>Failure lines of the scroll check\<close>

lemma check_page_scroll_fail:
  assumes "pv_goto v = Returns ()" and "pv_idle v = Returns ()" and "pv_settle v = Returns ()"
    and "pv_scroll_width v = Returns sw"
  shows "filter is_scroll_fail (snd (check_page d w p ts v)) =
           (if sw > w + 10 then [Print (ScrollFail sw w)] else [])"
proof -
  have rest: "filter is_scroll_fail
      (snd (sequence [check_sidebar w v, check_main v, check_cards v, check_touch w v,
                      take_screenshot d (snd p) ts v])) = []"
    by (rule filter_snd_sequence_empty)
      (auto simp: filter_check_sidebar filter_check_main filter_check_cards
        filter_check_touch filter_take_screenshot)
  have "snd (check_page d w p ts v) =
      [Print (PageHeader (snd p)), Goto (''http://localhost:3001'' @ fst p),
       Print (if sw > w + 10 then ScrollFail sw w else ScrollOk sw)] @
      snd (sequence [check_sidebar w v, check_main v, check_cards v, check_touch w v,
                     take_screenshot d (snd p) ts v])"
    using assms
    by (simp add: check_page_def sequence_Cons_returns check_scroll_trace
        del: sequence.simps)
  then show ?thesis using rest by simp
qed

lemma check_page_complete_scroll_fail:
  assumes "fst (check_page d w p ts v) = Returns ()"
  shows "filter is_scroll_fail (snd (check_page d w p ts v)) =
           (case pv_scroll_width v of
              Returns sw \<Rightarrow> if sw > w + 10 then [Print (ScrollFail sw w)] else []
            | Raises e \<Rightarrow> [])"
proof -
  from assms have "pv_goto v = Returns ()" "pv_idle v = Returns ()" "pv_settle v = Returns ()"
    "fst (check_scroll w v) = Returns ()"
    unfolding check_page_def fst_sequence_returns by simp_all
  moreover from this(4) obtain sw where "pv_scroll_width v = Returns sw"
    by (cases "pv_scroll_width v") (simp_all add: check_scroll_def fst_and_then)
  ultimately show ?thesis by (simp add: check_page_scroll_fail)
qed

lemma test_device_complete_scroll_fail:
  assumes "fst (test_device b ts (d, w, h)) = Returns ()"
  shows "filter is_scroll_fail (snd (test_device b ts (d, w, h))) =
           concat (map (\<lambda>(u, p).
             case pv_scroll_width (rs_visit b d p) of
               Returns sw \<Rightarrow> if sw > w + 10 then [Print (ScrollFail sw w)] else []
             | Raises e \<Rightarrow> []) PAGES_TO_TEST)"
proof -
  let ?f = "\<lambda>page_info. check_page d w page_info ts (rs_visit b d (snd page_info))"
  let ?ms = "[say (DeviceHeader d w h), emit (Resize w h), call (rs_resize b d 62),
              call (rs_resize b d 63), sequence (map ?f PAGES_TO_TEST)]"
  from assms have r: "fst (sequence ?ms) = Returns ()" by (simp only: test_device_def prod.case)
  have pages: "fst (sequence (map ?f PAGES_TO_TEST)) = Returns ()"
    using r [unfolded fst_sequence_returns [of ?ms]] by simp
  note each = sequence_map_returns [OF pages]
  have t: "snd (test_device b ts (d, w, h)) =
      [Print (DeviceHeader d w h), Resize w h] @ concat (map (\<lambda>x. snd (?f x)) PAGES_TO_TEST)"
    using snd_sequence_returns [OF r] each(2) by (simp add: test_device_def)
  have "concat (map (\<lambda>x. filter is_scroll_fail (snd (?f x))) PAGES_TO_TEST) =
        concat (map (\<lambda>x. case pv_scroll_width (rs_visit b d (snd x)) of
               Returns sw \<Rightarrow> if sw > w + 10 then [Print (ScrollFail sw w)] else []
             | Raises e \<Rightarrow> []) PAGES_TO_TEST)"
    using each(1)
    by (intro arg_cong [where f = concat] map_cong refl) (simp add: check_page_complete_scroll_fail)
  then show ?thesis
    unfolding t by (simp add: filter_concat comp_def case_prod_unfold)
qed

lemma rs_login_no_scroll_fail: "filter is_scroll_fail (snd (rs_login b)) = []"
  unfolding rs_login_def
  by (rule filter_snd_sequence_empty) (auto split: outcome.splits)

lemma scroll_fail_complete_run:
  assumes "fst (test_responsive_design b) = Returns ()"
  shows "filter is_scroll_fail (snd (test_responsive_design b)) = overflow_lines b"
proof -
  note p = complete_run_parts [OF assms]
  have "concat (map (\<lambda>dev. filter is_scroll_fail (snd (test_device b (strftime (rs_clock b)) dev)))
          DEVICE_SIZES) =
        concat (map (\<lambda>(d, w, h). concat (map (\<lambda>(u, p).
             case pv_scroll_width (rs_visit b d p) of
               Returns sw \<Rightarrow> if sw > w + 10 then [Print (ScrollFail sw w)] else []
             | Raises e \<Rightarrow> []) PAGES_TO_TEST)) DEVICE_SIZES)"
    using p(2)
    by (intro arg_cong [where f = concat] map_cong refl) (auto simp: test_device_complete_scroll_fail)
  then show ?thesis
    unfolding p(3) overflow_lines_def
    by (simp add: filter_concat comp_def rs_login_no_scroll_fail)
qed

lemma overflow_lines_rs_overflowing: "overflow_lines rs_overflowing = [Print (ScrollFail 500 375)]"
  by (simp add: overflow_lines_def rs_overflowing_def overflowing_visit_def DEVICE_SIZES_def
      PAGES_TO_TEST_def)

subsection \<open>The horizontal-scroll check\<close>

text \<open>
  Claim C1, amended. In the check of one page on one device, once the navigation and the
  two waits have returned and the browser reports the scroll width \<open>sw\<close>, the check
  fails exactly when \<open>sw\<close> exceeds the viewport width plus 10, and a failure writes
  exactly one failure line, with both widths, to the console. In a run that returns, the
  failure lines of the console are those of the pairs of the matrix that overflow, one
  for each, in the order of the matrix. The script keeps no sequence of results: the
  line is the whole record of the failure.
\<close>

theorem scroll_overflow_prints_one_failure_line:
  "(pv_goto v = Returns () \<and> pv_idle v = Returns () \<and> pv_settle v = Returns () \<and>
    pv_scroll_width v = Returns sw \<longrightarrow>
      filter is_scroll_fail (snd (check_page d w p ts v)) =
        (if sw > w + 10 then [Print (ScrollFail sw w)] else [])) \<and>
   (fst (test_responsive_design b) = Returns () \<longrightarrow>
      filter is_scroll_fail (snd (test_responsive_design b)) = overflow_lines b)"
  by (simp add: check_page_scroll_fail scroll_fail_complete_run)

theorem scroll_overflow_prints_one_failure_line_witness:
  "pv_goto overflowing_visit = Returns () \<and> pv_idle overflowing_visit = Returns () \<and>
   pv_settle overflowing_visit = Returns () \<and> pv_scroll_width overflowing_visit = Returns 500 \<and>
   filter is_scroll_fail
     (snd (check_page ''iPhone SE'' 375 (''/'', ''Home'') ''20261103_140100'' overflowing_visit)) =
     [Print (ScrollFail 500 375)] \<and>
   pv_scroll_width quiet_visit = Returns 360 \<and>
   filter is_scroll_fail
     (snd (check_page ''iPhone SE'' 375 (''/'', ''Home'') ''20261103_140100'' quiet_visit)) = [] \<and>
   fst (test_responsive_design rs_overflowing) = Returns () \<and>
   filter is_scroll_fail (snd (test_responsive_design rs_overflowing)) =
     [Print (ScrollFail 500 375)]"
proof -
  have 1: "pv_goto overflowing_visit = Returns ()" "pv_idle overflowing_visit = Returns ()"
    "pv_settle overflowing_visit = Returns ()" "pv_scroll_width overflowing_visit = Returns 500"
    by (simp_all add: overflowing_visit_def)
  have 2: "pv_goto quiet_visit = Returns ()" "pv_idle quiet_visit = Returns ()"
    "pv_settle quiet_visit = Returns ()" "pv_scroll_width quiet_visit = Returns 360"
    by simp_all
  note page = scroll_overflow_prints_one_failure_line [THEN conjunct1, rule_format, OF conjI,
      OF _ conjI, OF _ _ conjI]
  note run = scroll_overflow_prints_one_failure_line [THEN conjunct2, rule_format]
  have a: "filter is_scroll_fail
     (snd (check_page ''iPhone SE'' 375 (''/'', ''Home'') ''20261103_140100'' overflowing_visit)) =
     [Print (ScrollFail 500 375)]"
    using page [OF 1, where w = 375 and d = "''iPhone SE''" and p = "(''/'', ''Home'')"
        and ts = "''20261103_140100''"] by simp
  have b: "filter is_scroll_fail
     (snd (check_page ''iPhone SE'' 375 (''/'', ''Home'') ''20261103_140100'' quiet_visit)) = []"
    using page [OF 2, where w = 375 and d = "''iPhone SE''" and p = "(''/'', ''Home'')"
        and ts = "''20261103_140100''"] by simp
  have c: "filter is_scroll_fail (snd (test_responsive_design rs_overflowing)) =
     [Print (ScrollFail 500 375)]"
    using run [OF rs_overflowing_returns] by (simp only: overflow_lines_rs_overflowing)
  show ?thesis by (intro conjI) (fact 1 2 a b c rs_overflowing_returns)+
qed

text \<open>
  Claim C1 as it stands asks for a failed result entered in a sequence of results. The
  trace holds everything the page check does: with a scroll width of 500 on a viewport of
  375 it returns normally and the failure is the one printed line. The run in which this
  happens returns normally as well and ends with the summary of every complete run:
  nothing carries the failure beyond the console.
\<close>

theorem scroll_overflow_leaves_no_result_entry:
  "check_page ''iPhone SE'' 375 (''/'', ''Home'') ''20261103_140100'' overflowing_visit =
     (Returns (),
      [Print (PageHeader ''Home''), Goto ''http://localhost:3001/'',
       Print (ScrollFail 500 375), Print TouchOk,
       Screenshot ''responsive_iPhone_SE_Home_20261103_140100.png'',
       Print (Saved ''responsive_iPhone_SE_Home_20261103_140100.png'')]) \<and>
   rs_visit rs_overflowing ''iPhone SE'' ''Home'' = overflowing_visit \<and>
   fst (test_responsive_design rs_overflowing) = Returns () \<and>
   suffix [BrowserClose, Print Finished, Print (DevicesTested 6), Print (PagesTested 6),
           Print (ShotsTaken 36), Print Coverage]
     (snd (test_responsive_design rs_overflowing))"
proof -
  have "check_page ''iPhone SE'' 375 (''/'', ''Home'') ''20261103_140100'' overflowing_visit =
     (Returns (),
      [Print (PageHeader ''Home''), Goto ''http://localhost:3001/'',
       Print (ScrollFail 500 375), Print TouchOk,
       Screenshot ''responsive_iPhone_SE_Home_20261103_140100.png'',
       Print (Saved ''responsive_iPhone_SE_Home_20261103_140100.png'')])"
    by (simp add: check_page_def overflowing_visit_def sequence_Cons_returns check_scroll_trace
        check_touch_def take_screenshot_def screenshot_name_def replace_spaces_def Let_def
        prod_eq_iff fst_and_then snd_and_then)
  moreover have "rs_visit rs_overflowing ''iPhone SE'' ''Home'' = overflowing_visit"
    by (simp add: rs_overflowing_def)
  ultimately show ?thesis
    by (simp add: rs_overflowing_returns summary_complete_run)
qed

subsection \<open>The touch-target check\<close>

text \<open>
  Claim C6. Let the list of buttons return. When the bounding boxes of its first five
  return, the touch-target block returns as well, whatever it finds: on a viewport at
  most 480 wide it looks at the first five buttons only and prints a warning with the
  exact number of those that have a bounding box narrower or lower than 44, or the line
  of success when there is none; on a wider viewport it does nothing. In a page check
  that returns, these are the only lines about touch targets.
\<close>

theorem touch_targets_counted_as_warning:
  assumes "pv_buttons v = Returns btns"
  shows "((\<forall>r \<in> set (take 5 btns). returns r) \<longrightarrow>
            check_touch w v =
              (Returns (),
               if w \<le> 480
               then [Print (if undersized_count btns = 0 then TouchOk
                            else TouchWarn (undersized_count btns))]
               else [])) \<and>
         (fst (check_page d w p ts v) = Returns () \<longrightarrow>
            filter is_touch_line (snd (check_page d w p ts v)) =
              (if w \<le> 480
               then [Print (if undersized_count btns = 0 then TouchOk
                            else TouchWarn (undersized_count btns))]
               else []))"
proof (intro conjI impI)
  assume "\<forall>r \<in> set (take 5 btns). returns r"
  then show "check_touch w v =
      (Returns (),
       if w \<le> 480
       then [Print (if undersized_count btns = 0 then TouchOk
                    else TouchWarn (undersized_count btns))]
       else [])"
    by (rule check_touch_trace(1) [OF assms])
next
  assume r: "fst (check_page d w p ts v) = Returns ()"
  then have "fst (check_touch w v) = Returns ()"
    unfolding check_page_def fst_sequence_returns by simp
  then show "filter is_touch_line (snd (check_page d w p ts v)) =
      (if w \<le> 480
       then [Print (if undersized_count btns = 0 then TouchOk
                    else TouchWarn (undersized_count btns))]
       else [])"
    by (simp only: check_page_touch_lines [OF r] check_touch_trace(2) [OF assms])
qed

theorem touch_targets_counted_as_warning_witness:
  "pv_buttons small_buttons_visit = Returns
     [Returns (Some \<lparr>box_x = 0, box_y = 0, box_width = 100, box_height = 30\<rparr>),
      Returns None,
      Returns (Some \<lparr>box_x = 0, box_y = 40, box_width = 50, box_height = 50\<rparr>),
      Returns (Some \<lparr>box_x = 0, box_y = 100, box_width = 20, box_height = 20\<rparr>),
      Returns (Some \<lparr>box_x = 0, box_y = 130, box_width = 44, box_height = 44\<rparr>),
      Returns (Some \<lparr>box_x = 0, box_y = 180, box_width = 10, box_height = 10\<rparr>)] \<and>
   check_touch 375 small_buttons_visit = (Returns (), [Print (TouchWarn 2)]) \<and>
   check_touch 768 small_buttons_visit = (Returns (), []) \<and>
   fst (check_page ''iPhone SE'' 375 (''/'', ''Home'') ''20261103_140100'' small_buttons_visit) =
     Returns () \<and>
   filter is_touch_line
     (snd (check_page ''iPhone SE'' 375 (''/'', ''Home'') ''20261103_140100'' small_buttons_visit)) =
     [Print (TouchWarn 2)] \<and>
   screenshots
     (snd (check_page ''iPhone SE'' 375 (''/'', ''Home'') ''20261103_140100'' small_buttons_visit)) =
     [''responsive_iPhone_SE_Home_20261103_140100.png'']"
proof -
  let ?btns = "[Returns (Some \<lparr>box_x = 0, box_y = 0, box_width = 100, box_height = 30\<rparr>),
      Returns None,
      Returns (Some \<lparr>box_x = 0, box_y = 40, box_width = 50, box_height = 50\<rparr>),
      Returns (Some \<lparr>box_x = 0, box_y = 100, box_width = 20, box_height = 20\<rparr>),
      Returns (Some \<lparr>box_x = 0, box_y = 130, box_width = 44, box_height = 44\<rparr>),
      Returns (Some \<lparr>box_x = 0, box_y = 180, box_width = 10, box_height = 10\<rparr>)]"
  let ?page = "check_page ''iPhone SE'' 375 (''/'', ''Home'') ''20261103_140100'' small_buttons_visit"
  have 1: "pv_buttons small_buttons_visit = Returns ?btns"
    by (simp add: small_buttons_visit_def)
  have 2: "\<forall>r \<in> set (take 5 ?btns). returns r" by simp
  have 3: "undersized_count ?btns = 2" by (simp add: undersized_count_def)
  note t = touch_targets_counted_as_warning [OF 1]
  from t [where w = 375] 2 3 have a: "check_touch 375 small_buttons_visit = (Returns (), [Print (TouchWarn 2)])"
    by simp
  from t [where w = 768] 2 have b: "check_touch 768 small_buttons_visit = (Returns (), [])"
    by simp
  have s: "pv_goto small_buttons_visit = Returns ()" "pv_idle small_buttons_visit = Returns ()"
    "pv_settle small_buttons_visit = Returns ()" "pv_scroll_width small_buttons_visit = Returns 360"
    "pv_sidebar_visible small_buttons_visit = Returns False"
    "pv_main_visible small_buttons_visit = Returns False"
    "pv_card_count small_buttons_visit = Returns 0"
    "pv_screenshot small_buttons_visit = Returns ()"
    by (simp_all add: small_buttons_visit_def)
  have c: "fst ?page = Returns ()"
    unfolding check_page_def fst_sequence_returns
    by (simp add: a s check_scroll_trace check_sidebar_def check_main_def check_cards_def
        fst_and_then)
  from t [where w = 375 and d = "''iPhone SE''" and p = "(''/'', ''Home'')"
      and ts = "''20261103_140100''"] c 3
  have d: "filter is_touch_line (snd ?page) = [Print (TouchWarn 2)]" by simp
  have e: "screenshots (snd ?page) = [''responsive_iPhone_SE_Home_20261103_140100.png'']"
    by (simp add: check_page_complete(1) [OF c] screenshot_name_def replace_spaces_def)
  show ?thesis by (intro conjI) (fact 1 a b c d e)+
qed

subsection \<open>The device and page matrix\<close>

text \<open>
  Claim C4. In a run that returns, the pages are checked device by device: the header
  lines of the console are, for each device in the order of \<^verbatim>\<open>DEVICE_SIZES\<close>, the
  header of the device followed by the headers of all pages in the order of
  \<^verbatim>\<open>PAGES_TO_TEST\<close>; the screenshots written are one for each pair, in the same
  order, 36 in all and under 36 different names; and the run ends by closing the browser and printing the summary
  with 6 devices, 6 pages and 36 screenshots.
\<close>

theorem responsive_run_covers_matrix:
  assumes "fst (test_responsive_design b) = Returns ()"
  shows "filter is_header (snd (test_responsive_design b)) = matrix_headers \<and>
         screenshots (snd (test_responsive_design b)) = matrix_screenshots (strftime (rs_clock b)) \<and>
         length (screenshots (snd (test_responsive_design b))) = 36 \<and>
         distinct (screenshots (snd (test_responsive_design b))) \<and>
         suffix [BrowserClose, Print Finished, Print (DevicesTested 6), Print (PagesTested 6),
                 Print (ShotsTaken 36), Print Coverage]
           (snd (test_responsive_design b))"
  by (simp add: headers_complete_run [OF assms] screenshots_complete_run [OF assms]
      length_matrix_screenshots distinct_matrix_screenshots summary_complete_run [OF assms])

theorem responsive_run_covers_matrix_witness:
  "fst (test_responsive_design rs_fine) = Returns () \<and>
   length (screenshots (snd (test_responsive_design rs_fine))) = 36 \<and>
   take 3 (screenshots (snd (test_responsive_design rs_fine))) =
     [''responsive_iPhone_SE_Home_20261103_140100.png'',
      ''responsive_iPhone_SE_Profile_20261103_140100.png'',
      ''responsive_iPhone_SE_Market_20261103_140100.png''] \<and>
   take 8 (filter is_header (snd (test_responsive_design rs_fine))) =
     [Print (DeviceHeader ''iPhone SE'' 375 667), Print (PageHeader ''Home''),
      Print (PageHeader ''Profile''), Print (PageHeader ''Market''),
      Print (PageHeader ''Subscription''), Print (PageHeader ''HotProducts''),
      Print (PageHeader ''Favorites''), Print (DeviceHeader ''iPhone 12'' 390 844)]"
  using responsive_run_covers_matrix [OF rs_fine_returns] rs_fine_returns
  by (simp add: strftime_rs_fine matrix_headers_def matrix_screenshots_def
      DEVICE_SIZES_def PAGES_TO_TEST_def screenshot_name_def replace_spaces_def
      del: rs_fine_sel)

subsection \<open>The names of the screenshots\<close>

text \<open>
  Claim C9, amended. In a run that returns, with the clock in a four-digit year, every
  pair of the matrix has its screenshot; the name of the file contains the device label
  with each space replaced by an underscore, the page label, and the timestamp, which
  has the form \<^verbatim>\<open>YYYYMMDD_HHMMSS\<close>. Two runs whose timestamps differ write no file of
  the same name.
\<close>

theorem screenshot_names_carry_device_page_timestamp:
  assumes "valid_tm (rs_clock b)" and "fst (test_responsive_design b) = Returns ()"
  shows "(\<forall>(d, w, h) \<in> set DEVICE_SIZES. \<forall>(u, p) \<in> set PAGES_TO_TEST.
            Screenshot (screenshot_name d p (strftime (rs_clock b)))
              \<in> set (snd (test_responsive_design b)) \<and>
            sublist (replace_spaces d) (screenshot_name d p (strftime (rs_clock b))) \<and>
            sublist p (screenshot_name d p (strftime (rs_clock b))) \<and>
            sublist (strftime (rs_clock b)) (screenshot_name d p (strftime (rs_clock b)))) \<and>
         is_timestamp (strftime (rs_clock b)) \<and>
         (\<forall>b'. valid_tm (rs_clock b') \<longrightarrow> strftime (rs_clock b') \<noteq> strftime (rs_clock b) \<longrightarrow>
            set (screenshots (snd (test_responsive_design b'))) \<inter>
            set (screenshots (snd (test_responsive_design b))) = {})"
proof (intro conjI allI impI)
  show "\<forall>(d, w, h) \<in> set DEVICE_SIZES. \<forall>(u, p) \<in> set PAGES_TO_TEST.
            Screenshot (screenshot_name d p (strftime (rs_clock b)))
              \<in> set (snd (test_responsive_design b)) \<and>
            sublist (replace_spaces d) (screenshot_name d p (strftime (rs_clock b))) \<and>
            sublist p (screenshot_name d p (strftime (rs_clock b))) \<and>
            sublist (strftime (rs_clock b)) (screenshot_name d p (strftime (rs_clock b)))"
    using matrix_screenshot_mem [where ts = "strftime (rs_clock b)"]
    by (auto simp: set_screenshots [symmetric] screenshots_complete_run [OF assms(2)]
        sublist_screenshot_name)
  show "is_timestamp (strftime (rs_clock b))"
    using assms(1) by (rule strftime_is_timestamp)
next
  fix b' :: rs_browser
  assume v: "valid_tm (rs_clock b')" and ne: "strftime (rs_clock b') \<noteq> strftime (rs_clock b)"
  have len: "length (strftime (rs_clock b')) = length (strftime (rs_clock b))"
    using strftime_is_timestamp [OF v] strftime_is_timestamp [OF assms(1)]
    by (simp add: is_timestamp_def)
  show "set (screenshots (snd (test_responsive_design b'))) \<inter>
        set (screenshots (snd (test_responsive_design b))) = {}"
  proof (rule ccontr)
    assume "\<not> ?thesis"
    then obtain n where "Screenshot n \<in> set (snd (test_responsive_design b'))"
      "Screenshot n \<in> set (snd (test_responsive_design b))"
      by (auto simp: set_screenshots)
    then obtain d p d' p' where "n = screenshot_name d' p' (strftime (rs_clock b'))"
      "n = screenshot_name d p (strftime (rs_clock b))"
      by (blast dest: screenshot_in_run)
    with len have "strftime (rs_clock b') = strftime (rs_clock b)"
      by (auto dest: screenshot_name_timestamp)
    with ne show False by contradiction
  qed
qed

theorem screenshot_names_carry_device_page_timestamp_witness:
  "valid_tm (rs_clock rs_fine) \<and> fst (test_responsive_design rs_fine) = Returns () \<and>
   valid_tm (rs_clock rs_later) \<and> strftime (rs_clock rs_later) \<noteq> strftime (rs_clock rs_fine) \<and>
   Screenshot ''responsive_iPhone_SE_Home_20261103_140100.png''
     \<in> set (snd (test_responsive_design rs_fine)) \<and>
   sublist ''iPhone_SE'' ''responsive_iPhone_SE_Home_20261103_140100.png'' \<and>
   is_timestamp ''20261103_140100'' \<and>
   set (screenshots (snd (test_responsive_design rs_later))) \<inter>
   set (screenshots (snd (test_responsive_design rs_fine))) = {}"
proof -
  have 1: "valid_tm (rs_clock rs_fine)" by (simp add: valid_tm_def)
  have 2: "valid_tm (rs_clock rs_later)" by (simp add: valid_tm_def rs_later_def)
  have 3: "strftime (rs_clock rs_later) \<noteq> strftime (rs_clock rs_fine)"
    by (simp add: strftime_rs_fine strftime_rs_later del: rs_fine_sel)
  have 4: "(''iPhone SE'', 375, 667) \<in> set DEVICE_SIZES" "(''/'', ''Home'') \<in> set PAGES_TO_TEST"
    by (simp_all add: DEVICE_SIZES_def PAGES_TO_TEST_def)
  have 5: "screenshot_name ''iPhone SE'' ''Home'' ''20261103_140100'' =
      ''responsive_iPhone_SE_Home_20261103_140100.png''" "replace_spaces ''iPhone SE'' = ''iPhone_SE''"
    by (simp_all add: screenshot_name_def replace_spaces_def)
  note t = screenshot_names_carry_device_page_timestamp [OF 1 rs_fine_returns]
  from t have "\<forall>(d, w, h) \<in> set DEVICE_SIZES. \<forall>(u, p) \<in> set PAGES_TO_TEST.
      Screenshot (screenshot_name d p (strftime (rs_clock rs_fine)))
        \<in> set (snd (test_responsive_design rs_fine)) \<and>
      sublist (replace_spaces d) (screenshot_name d p (strftime (rs_clock rs_fine)))"
    by fast
  with 4 have "Screenshot (screenshot_name ''iPhone SE'' ''Home'' (strftime (rs_clock rs_fine)))
        \<in> set (snd (test_responsive_design rs_fine)) \<and>
      sublist (replace_spaces ''iPhone SE'')
        (screenshot_name ''iPhone SE'' ''Home'' (strftime (rs_clock rs_fine)))"
    by fast
  moreover from t 2 3 have "set (screenshots (snd (test_responsive_design rs_later))) \<inter>
      set (screenshots (snd (test_responsive_design rs_fine))) = {}"
    by blast
  moreover from t have "is_timestamp (strftime (rs_clock rs_fine))" by blast
  ultimately show ?thesis
    using 1 2 3 rs_fine_returns unfolding strftime_rs_fine 5 by simp
qed

text \<open>
  The claim as it stands fails twice. The label \<^verbatim>\<open>iPhone SE\<close> is not part of the name
  of its screenshots, where it stands as \<^verbatim>\<open>iPhone_SE\<close>. And the timestamp has the
  resolution of a second of local time: two different runs that read the same second
  write their 36 screenshots under the same names, the later over the earlier.
\<close>

theorem same_second_runs_share_names:
  "\<not> sublist ''iPhone SE'' (screenshot_name ''iPhone SE'' ''Home'' (strftime (rs_clock rs_fine))) \<and>
   rs_overflowing \<noteq> rs_fine \<and>
   rs_clock rs_overflowing = rs_clock rs_fine \<and>
   fst (test_responsive_design rs_overflowing) = Returns () \<and>
   fst (test_responsive_design rs_fine) = Returns () \<and>
   screenshots (snd (test_responsive_design rs_overflowing)) =
     screenshots (snd (test_responsive_design rs_fine)) \<and>
   length (screenshots (snd (test_responsive_design rs_fine))) = 36"
proof -
  have "\<not> sublist ''iPhone SE'' ''responsive_iPhone_SE_Home_20261103_140100.png''"
    by (simp add: sublist_Cons_right)
  then have 1: "\<not> sublist ''iPhone SE''
      (screenshot_name ''iPhone SE'' ''Home'' (strftime (rs_clock rs_fine)))"
    unfolding strftime_rs_fine by (simp add: screenshot_name_def replace_spaces_def)
  have "pv_scroll_width (rs_visit rs_overflowing ''iPhone SE'' ''Home'') \<noteq>
        pv_scroll_width (rs_visit rs_fine ''iPhone SE'' ''Home'')"
    by (simp add: rs_overflowing_def overflowing_visit_def)
  then have 2: "rs_overflowing \<noteq> rs_fine" by auto
  have 3: "rs_clock rs_overflowing = rs_clock rs_fine" by (simp add: rs_overflowing_def)
  show ?thesis
    using 1 2 3
    by (simp add: screenshots_complete_run rs_overflowing_returns rs_fine_returns
        length_matrix_screenshots del: rs_fine_sel)
qed

section \<open>Proofs about the login and the close of the browser\<close>

lemma assert_simps [simp]:
  "fst (assert c) = (if c then Returns () else Raises AssertionError)" "snd (assert c) = []"
  by (simp_all add: assert_def)

lemma ui_fine_sel [simp]:
  "ui_act ui_fine l = Returns ()" "ui_text ui_fine l = Returns ''rgb(15, 23, 42)''"
  "ui_visible ui_fine l = Returns True" "ui_count ui_fine l = Returns 3"
  "ui_attribute ui_fine = Returns (Some ''btn bg-Orange-500'')"
  "ui_wait_for_url ui_fine = Returns ()"
  by (simp_all add: ui_fine_def)

lemma ui_login_page_fine:
  "ui_login_page (ui_fine\<lparr>ui_wait_for_url := r\<rparr>) =
     (Returns (),
      [Print 14, Print 15, Print 18, Goto ''http://localhost:3001/login'', Print 24,
       Print 26, Print 31, Print 36, Print 44, Print 45])"
  by (simp add: ui_login_page_def ui_fine_def prod_eq_iff fst_and_then snd_and_then)

lemma test_device_wait [simp]:
  "test_device (b\<lparr>rs_wait_for_url := r\<rparr>) = test_device b"
  by (simp add: test_device_def fun_eq_iff)

lemma rs_after_login_wait [simp]:
  "rs_after_login (b\<lparr>rs_wait_for_url := r\<rparr>) = rs_after_login b"
  by (simp add: rs_after_login_def del: sequence.simps)

lemma ui_parts_wait [simp]:
  "ui_home (u\<lparr>ui_wait_for_url := r\<rparr>) = ui_home u"
  "ui_profile (u\<lparr>ui_wait_for_url := r\<rparr>) = ui_profile u"
  "ui_market (u\<lparr>ui_wait_for_url := r\<rparr>) = ui_market u"
  "ui_subscription (u\<lparr>ui_wait_for_url := r\<rparr>) = ui_subscription u"
  "ui_hot_products (u\<lparr>ui_wait_for_url := r\<rparr>) = ui_hot_products u"
  "ui_favorites (u\<lparr>ui_wait_for_url := r\<rparr>) = ui_favorites u"
  "ui_screenshots (u\<lparr>ui_wait_for_url := r\<rparr>) = ui_screenshots u"
  by (simp_all add: ui_home_def ui_profile_def ui_market_def ui_subscription_def
      ui_hot_products_def ui_favorites_def ui_screenshots_def del: sequence.simps
      cong: if_cong)

lemma ui_checks_wait [simp]: "ui_checks (u\<lparr>ui_wait_for_url := r\<rparr>) = ui_checks u"
  by (simp add: ui_checks_def del: sequence.simps)

lemma rs_login_timeout_trace:
  assumes "list_all (\<lambda>l. rs_login_act b l = Returns ()) [38, 39, 42, 43, 44]"
    and "rs_wait_for_url b = Raises e"
  shows "rs_login b =
     (Returns (),
      [Print Started, Print LoginStarted, Goto ''http://localhost:3001/login'', Print LoginWarn])"
  using assms by (simp add: rs_login_def prod_eq_iff fst_and_then snd_and_then)

lemma ui_login_timeout_trace:
  assumes "list_all (\<lambda>l. ui_act u l = Returns ()) [49, 53, 57]"
    and "ui_wait_for_url u = Raises e"
  shows "ui_login u = (Returns (), [Print 48, Print 64])"
  using assms by (simp add: ui_login_def prod_eq_iff fst_and_then snd_and_then)

lemma lower_class: "lower ''btn bg-Orange-500'' = ''btn bg-orange-500''"
  by (simp add: lower_def)

lemma ui_checks_fine_returns: "fst (ui_checks ui_fine) = Returns ()"
  unfolding ui_checks_def fst_sequence_returns
  by (simp add: ui_home_def ui_profile_def ui_market_def ui_subscription_def
      ui_hot_products_def ui_favorites_def ui_screenshots_def ui_finish_def
      fst_and_then lower_class sublist_Cons_right Let_def)

lemma ui_login_timeout_returns: "fst (test_ui_design ui_login_timeout) = Returns ()"
  unfolding test_ui_design_def fst_sequence_returns
  by (simp add: ui_login_timeout_def ui_login_page_fine ui_checks_fine_returns ui_login_def
      fst_and_then)

subsection \<open>A login that times out\<close>

text \<open>
  Claim C3. In both scripts that log in, when the calls of the login return and
  \<^verbatim>\<open>wait_for_url\<close> raises after its 5000 ms, the login itself returns: it prints the
  warning (line 51 of the responsive script, line 64 of the design script) and the run
  goes on with everything that follows the login, which is the same as after a login
  that succeeded.
\<close>

theorem login_timeout_is_a_warning:
  assumes "list_all (\<lambda>l. rs_login_act b l = Returns ()) [38, 39, 42, 43, 44]"
    and "rs_wait_for_url b = Raises e"
    and "fst (ui_login_page u) = Returns ()"
    and "list_all (\<lambda>l. ui_act u l = Returns ()) [49, 53, 57]"
    and "ui_wait_for_url u = Raises e'"
  shows "rs_login b =
           (Returns (),
            [Print Started, Print LoginStarted, Goto ''http://localhost:3001/login'',
             Print LoginWarn]) \<and>
         test_responsive_design b =
           (fst (rs_after_login b), snd (rs_login b) @ snd (rs_after_login b)) \<and>
         rs_after_login b = rs_after_login (b\<lparr>rs_wait_for_url := Returns ()\<rparr>) \<and>
         ui_login u = (Returns (), [Print 48, Print 64]) \<and>
         test_ui_design u =
           (fst (ui_checks u), snd (ui_login_page u) @ snd (ui_login u) @ snd (ui_checks u)) \<and>
         ui_checks u = ui_checks (u\<lparr>ui_wait_for_url := Returns ()\<rparr>)"
proof -
  note r = rs_login_timeout_trace [OF assms(1,2)]
  note l = ui_login_timeout_trace [OF assms(4,5)]
  have "test_responsive_design b =
      (fst (rs_after_login b), snd (rs_login b) @ snd (rs_after_login b))"
    by (simp add: test_responsive_design_def r prod_eq_iff fst_and_then snd_and_then)
  moreover have "test_ui_design u =
      (fst (ui_checks u), snd (ui_login_page u) @ snd (ui_login u) @ snd (ui_checks u))"
    using assms(3)
    by (simp add: test_ui_design_def l prod_eq_iff fst_and_then snd_and_then
        split: outcome.splits)
  ultimately show ?thesis using r l by simp
qed

theorem login_timeout_is_a_warning_witness:
  "list_all (\<lambda>l. rs_login_act rs_login_timeout l = Returns ()) [38, 39, 42, 43, 44] \<and>
   rs_wait_for_url rs_login_timeout = Raises DriverError \<and>
   fst (ui_login_page ui_login_timeout) = Returns () \<and>
   list_all (\<lambda>l. ui_act ui_login_timeout l = Returns ()) [49, 53, 57] \<and>
   ui_wait_for_url ui_login_timeout = Raises DriverError \<and>
   rs_login rs_login_timeout =
     (Returns (),
      [Print Started, Print LoginStarted, Goto ''http://localhost:3001/login'', Print LoginWarn]) \<and>
   test_responsive_design rs_login_timeout =
     (fst (rs_after_login rs_fine), snd (rs_login rs_login_timeout) @ snd (rs_after_login rs_fine)) \<and>
   ui_login ui_login_timeout = (Returns (), [Print 48, Print 64]) \<and>
   test_ui_design ui_login_timeout =
     (fst (ui_checks ui_fine),
      snd (ui_login_page ui_login_timeout) @ snd (ui_login ui_login_timeout) @
      snd (ui_checks ui_fine)) \<and>
   fst (test_responsive_design rs_login_timeout) = Returns () \<and>
   length (screenshots (snd (test_responsive_design rs_login_timeout))) = 36 \<and>
   fst (test_ui_design ui_login_timeout) = Returns ()"
proof -
  have 1: "list_all (\<lambda>l. rs_login_act rs_login_timeout l = Returns ()) [38, 39, 42, 43, 44]"
    and 2: "rs_wait_for_url rs_login_timeout = Raises DriverError"
    by (simp_all add: rs_login_timeout_def)
  have 3: "fst (ui_login_page ui_login_timeout) = Returns ()"
    by (simp add: ui_login_timeout_def ui_login_page_fine)
  have 4: "list_all (\<lambda>l. ui_act ui_login_timeout l = Returns ()) [49, 53, 57]"
    and 5: "ui_wait_for_url ui_login_timeout = Raises DriverError"
    by (simp_all add: ui_login_timeout_def)
  have 6: "rs_after_login rs_login_timeout = rs_after_login rs_fine"
    "ui_checks ui_login_timeout = ui_checks ui_fine"
    by (simp_all add: rs_login_timeout_def ui_login_timeout_def)
  have 7: "length (screenshots (snd (test_responsive_design rs_login_timeout))) = 36"
    by (simp add: screenshots_complete_run [OF rs_login_timeout_returns]
        length_matrix_screenshots)
  note t = login_timeout_is_a_warning [OF 1 2 3 4 5, unfolded 6]
  from t have c:
    "rs_login rs_login_timeout =
       (Returns (),
        [Print Started, Print LoginStarted, Goto ''http://localhost:3001/login'', Print LoginWarn])"
    "test_responsive_design rs_login_timeout =
       (fst (rs_after_login rs_fine), snd (rs_login rs_login_timeout) @ snd (rs_after_login rs_fine))"
    "ui_login ui_login_timeout = (Returns (), [Print 48, Print 64])"
    "test_ui_design ui_login_timeout =
       (fst (ui_checks ui_fine),
        snd (ui_login_page ui_login_timeout) @ snd (ui_login ui_login_timeout) @
        snd (ui_checks ui_fine))"
    by blast+
  show ?thesis
    by (intro conjI) (fact 1 2 3 4 5 7 c rs_login_timeout_returns ui_login_timeout_returns)+
qed

subsection \<open>The browser at the end of a script\<close>
















end
